theory Spec2Isabelle
  imports Complex_Main "HOL-Library.Stream"
begin

section \<open>Double-precision values\<close>

text \<open>
  The codec and the sampler compute on C++ \<^verbatim>\<open>double\<close>. Several properties of the
  code depend on the special values of IEEE-754 arithmetic (not-a-number and the two
  infinities), so a double is modelled as a finite real or one of the three special
  values. The special-value rules below are those of IEEE-754 and of the C library
  functions \<^verbatim>\<open>log\<close>, \<open>exp\<close>, \<open>atanh\<close>, \<open>fabs\<close>. The operations of this
  section give finite results as exact reals. The sum check of the simplex transform
  compares a computed sum with a tolerance, so there every operation rounds to the
  nearest double (next section). The sign of zero is not modelled (a zero divisor is
  read as \<open>+0\<close>).
\<close>

datatype double = Fin real | PInf | NInf | NaN

fun isnan :: "double \<Rightarrow> bool" where
  "isnan NaN = True"
| "isnan _ = False"

text \<open>Comparisons: every comparison with not-a-number is false.\<close>

fun dlt :: "double \<Rightarrow> double \<Rightarrow> bool" where
  "dlt NaN _ = False"
| "dlt _ NaN = False"
| "dlt (Fin x) (Fin y) = (x < y)"
| "dlt (Fin x) PInf = True"
| "dlt (Fin x) NInf = False"
| "dlt PInf _ = False"
| "dlt NInf NInf = False"
| "dlt NInf _ = True"

fun dle :: "double \<Rightarrow> double \<Rightarrow> bool" where
  "dle NaN _ = False"
| "dle _ NaN = False"
| "dle (Fin x) (Fin y) = (x \<le> y)"
| "dle (Fin x) PInf = True"
| "dle (Fin x) NInf = False"
| "dle PInf PInf = True"
| "dle PInf _ = False"
| "dle NInf _ = True"

definition dgt :: "double \<Rightarrow> double \<Rightarrow> bool" where
  "dgt a b = dlt b a"

definition dge :: "double \<Rightarrow> double \<Rightarrow> bool" where
  "dge a b = dle b a"

fun dneg :: "double \<Rightarrow> double" where
  "dneg (Fin x) = Fin (- x)"
| "dneg PInf = NInf"
| "dneg NInf = PInf"
| "dneg NaN = NaN"

fun dadd :: "double \<Rightarrow> double \<Rightarrow> double" where
  "dadd NaN _ = NaN"
| "dadd _ NaN = NaN"
| "dadd (Fin x) (Fin y) = Fin (x + y)"
| "dadd (Fin x) PInf = PInf"
| "dadd (Fin x) NInf = NInf"
| "dadd PInf NInf = NaN"
| "dadd PInf _ = PInf"
| "dadd NInf PInf = NaN"
| "dadd NInf _ = NInf"

definition dsub :: "double \<Rightarrow> double \<Rightarrow> double" where
  "dsub a b = dadd a (dneg b)"

fun dmul :: "double \<Rightarrow> double \<Rightarrow> double" where
  "dmul NaN _ = NaN"
| "dmul _ NaN = NaN"
| "dmul (Fin x) (Fin y) = Fin (x * y)"
| "dmul (Fin x) PInf = (if x = 0 then NaN else if 0 < x then PInf else NInf)"
| "dmul (Fin x) NInf = (if x = 0 then NaN else if 0 < x then NInf else PInf)"
| "dmul PInf (Fin y) = (if y = 0 then NaN else if 0 < y then PInf else NInf)"
| "dmul NInf (Fin y) = (if y = 0 then NaN else if 0 < y then NInf else PInf)"
| "dmul PInf PInf = PInf"
| "dmul PInf NInf = NInf"
| "dmul NInf PInf = NInf"
| "dmul NInf NInf = PInf"

fun ddiv :: "double \<Rightarrow> double \<Rightarrow> double" where
  "ddiv NaN _ = NaN"
| "ddiv _ NaN = NaN"
| "ddiv (Fin x) (Fin y) =
     (if y = 0 then (if x = 0 then NaN else if 0 < x then PInf else NInf)
      else Fin (x / y))"
| "ddiv (Fin x) _ = Fin 0"
| "ddiv PInf (Fin y) = (if 0 \<le> y then PInf else NInf)"
| "ddiv NInf (Fin y) = (if 0 \<le> y then NInf else PInf)"
| "ddiv _ _ = NaN"

fun dabs :: "double \<Rightarrow> double" where
  "dabs (Fin x) = Fin \<bar>x\<bar>"
| "dabs PInf = PInf"
| "dabs NInf = PInf"
| "dabs NaN = NaN"

fun dlog :: "double \<Rightarrow> double" where
  "dlog (Fin x) = (if x < 0 then NaN else if x = 0 then NInf else Fin (ln x))"
| "dlog PInf = PInf"
| "dlog NInf = NaN"
| "dlog NaN = NaN"

fun dexp :: "double \<Rightarrow> double" where
  "dexp (Fin x) = Fin (exp x)"
| "dexp PInf = PInf"
| "dexp NInf = Fin 0"
| "dexp NaN = NaN"

fun datanh :: "double \<Rightarrow> double" where
  "datanh (Fin x) =
     (if x < - 1 \<or> 1 < x then NaN else if x = 1 then PInf
      else if x = - 1 then NInf else Fin (artanh x))"
| "datanh _ = NaN"

text \<open>
  Modelled from the spec: \<^verbatim>\<open>logit\<close> is declared in
  \<^verbatim>\<open>stan/maths/special_functions.hpp\<close>, which is not among the sources. It is the
  log-odds function \<open>logit(u) = log(u / (1 - u))\<close>, computed with the operations above.
\<close>

definition logit :: "double \<Rightarrow> double" where
  "logit u = dlog (ddiv u (dsub (Fin 1) u))"


section \<open>Rounding to double\<close>

text \<open>
  IEEE-754 binary64, round to nearest, ties to even. \<open>rne\<close> rounds a real to the
  nearest integer, a tie to the even one. A double has 53 significant bits, so the
  doubles around \<open>x\<close> are the multiples of \<open>2\<close> to the power
  \<open>\<lfloor>log\<^sub>2 |x|\<rfloor> - 52\<close>, and of \<open>2\<close> to the power \<open>-1074\<close> in the subnormal
  range; \<open>fl x\<close> is the nearest of them. A result of magnitude \<open>2\<close> to the power
  \<open>1024\<close> or more is an infinity. \<open>fadd\<close> and \<open>fsub\<close> are the addition and the
  subtraction of two doubles as the machine performs them.
\<close>

definition rne :: "real \<Rightarrow> int" where
  "rne r = (let f = \<lfloor>r\<rfloor> in
            if r - of_int f < 1 / 2 then f
            else if 1 / 2 < r - of_int f then f + 1
            else if even f then f else f + 1)"

definition ulp_exp :: "real \<Rightarrow> int" where
  "ulp_exp x = max (\<lfloor>log 2 \<bar>x\<bar>\<rfloor> - 52) (- 1074)"

definition fl :: "real \<Rightarrow> real" where
  "fl x = (if x = 0 then 0
           else of_int (rne (x / 2 powr of_int (ulp_exp x))) * 2 powr of_int (ulp_exp x))"

definition huge :: real where
  "huge = 2 powr 1024"

definition tiny :: real where
  "tiny = 2 powr (- 1075)"

definition dround :: "real \<Rightarrow> double" where
  "dround x = (if huge \<le> fl x then PInf else if fl x \<le> - huge then NInf else Fin (fl x))"

definition fadd :: "double \<Rightarrow> double \<Rightarrow> double" where
  "fadd a b = (case dadd a b of Fin r \<Rightarrow> dround r | d \<Rightarrow> d)"

definition fsub :: "double \<Rightarrow> double \<Rightarrow> double" where
  "fsub a b = (case dsub a b of Fin r \<Rightarrow> dround r | d \<Rightarrow> d)"


section \<open>The transform codec (\<^verbatim>\<open>stan::io::writer\<close>)\<close>

text \<open>
  The writer class has two data members, both declared by value:
  \<^verbatim>\<open>std::vector<T> data_r_; std::vector<int> data_i_;\<close>
  Every unconstrain method appends to \<^verbatim>\<open>data_r_\<close> with \<^verbatim>\<open>push_back\<close>.
  The fields are named \<open>data_r\<close> and \<open>data_i\<close> here (a name cannot end in an
  underscore).
\<close>

record writer =
  data_r :: "double list"
  data_i :: "int list"

text \<open>The constant is the double nearest to the literal \<^verbatim>\<open>1E-8\<close>.\<close>

definition CONSTRAINT_TOLERANCE :: double where
  "CONSTRAINT_TOLERANCE = Fin (fl (1 / 10 ^ 8))"

definition push_back :: "double \<Rightarrow> writer \<Rightarrow> writer" where
  "push_back x w = w\<lparr>data_r := data_r w @ [x]\<rparr>"

text \<open>
  A failed \<^verbatim>\<open>assert\<close> stops the method where it stands. The result of a method is
  either the writer after the method has run to its end (\<open>Inr\<close>), or the constraint
  violation together with the writer as it is at the moment the assertion fails
  (\<open>Inl\<close>).
\<close>

datatype error = ConstraintViolation

type_synonym result = "(error \<times> writer) + writer"

definition violation :: "writer \<Rightarrow> result" where
  "violation w = Inl (ConstraintViolation, w)"

definition scalar_unconstrain :: "double \<Rightarrow> writer \<Rightarrow> result" where
  "scalar_unconstrain y w = Inr (push_back y w)"

definition scalar_pos_unconstrain :: "double \<Rightarrow> writer \<Rightarrow> result" where
  "scalar_pos_unconstrain y w =
     (if \<not> dge y (Fin 0) then violation w
      else Inr (push_back (dlog y) w))"

definition scalar_lb_unconstrain :: "double \<Rightarrow> double \<Rightarrow> writer \<Rightarrow> result" where
  "scalar_lb_unconstrain lb y w =
     (if \<not> dge y lb then violation w
      else Inr (push_back (dlog (dsub y lb)) w))"

definition scalar_ub_unconstrain :: "double \<Rightarrow> double \<Rightarrow> writer \<Rightarrow> result" where
  "scalar_ub_unconstrain ub y w =
     (if \<not> dle y ub then violation w
      else Inr (push_back (dlog (dsub ub y)) w))"

definition scalar_lub_unconstrain :: "double \<Rightarrow> double \<Rightarrow> double \<Rightarrow> writer \<Rightarrow> result" where
  "scalar_lub_unconstrain lb ub y w =
     (if \<not> dle lb y then violation w
      else if \<not> dle y ub then violation w
      else Inr (push_back (logit (ddiv (dsub y lb) (dsub ub lb))) w))"

definition corr_unconstrain :: "double \<Rightarrow> writer \<Rightarrow> result" where
  "corr_unconstrain y w =
     (if \<not> dle (Fin (- 1)) y then violation w
      else if \<not> dle y (Fin 1) then violation w
      else Inr (push_back (datanh y) w))"

definition prob_unconstrain :: "double \<Rightarrow> writer \<Rightarrow> result" where
  "prob_unconstrain y w =
     (if \<not> dle (Fin 0) y then violation w
      else if \<not> dle y (Fin 1) then violation w
      else Inr (push_back (logit y) w))"

text \<open>
  The loop of \<^verbatim>\<open>pos_ordered_unconstrain\<close>, from index \<open>i\<close> on: each round
  asserts \<open>y[i] >= y[i-1]\<close> and then appends \<open>log(y[i] - y[i-1])\<close>.
\<close>

function pos_ordered_loop :: "double list \<Rightarrow> nat \<Rightarrow> writer \<Rightarrow> result" where
  "pos_ordered_loop y i w =
     (if i < length y then
        (if \<not> dge (y ! i) (y ! (i - 1)) then violation w
         else pos_ordered_loop y (i + 1)
                (push_back (dlog (dsub (y ! i) (y ! (i - 1)))) w))
      else Inr w)"
  by pat_completeness auto
termination
  by (relation "measure (\<lambda>(y, i, w). length y - i)") auto

declare pos_ordered_loop.simps [simp del]

definition pos_ordered_unconstrain :: "double list \<Rightarrow> writer \<Rightarrow> result" where
  "pos_ordered_unconstrain y w =
     (if length y = 0 then Inr w
      else if \<not> dge (y ! 0) (Fin 0) then violation w
      else pos_ordered_loop y 1 (push_back (dlog (y ! 0)) w))"

text \<open>
  \<^verbatim>\<open>y.sum()\<close> of an Eigen vector: the entries are added from the first to the
  last, each addition rounded to double (the sum of no entries is 0). The sum check
  \<open>abs(1.0 - y.sum()) < CONSTRAINT_TOLERANCE\<close> rounds its subtraction too. Then the
  loop of \<^verbatim>\<open>simplex_unconstrain\<close> over \<open>i < k_minus_1\<close>: each round asserts
  \<open>y[i] >= 0.0\<close> and then appends \<open>log(y[i]) - log_y_k\<close>.

  Modelled from the spec: the sum check calls an unqualified \<^verbatim>\<open>abs\<close>, whose
  declaration is outside the sources. It is the absolute value of a double, as the
  spec reads the check (\<open>sum(y)\<close> within \<open>1e-8\<close> of 1).
\<close>

fun vsum :: "double list \<Rightarrow> double" where
  "vsum [] = Fin 0"
| "vsum (x # xs) = foldl fadd x xs"

function simplex_loop :: "double list \<Rightarrow> nat \<Rightarrow> double \<Rightarrow> nat \<Rightarrow> writer \<Rightarrow> result" where
  "simplex_loop y k_minus_1 log_y_k i w =
     (if i < k_minus_1 then
        (if \<not> dge (y ! i) (Fin 0) then violation w
         else simplex_loop y k_minus_1 log_y_k (i + 1)
                (push_back (dsub (dlog (y ! i)) log_y_k) w))
      else Inr w)"
  by pat_completeness auto
termination
  by (relation "measure (\<lambda>(y, k, l, i, w). k - i)") auto

declare simplex_loop.simps [simp del]

definition simplex_unconstrain :: "double list \<Rightarrow> writer \<Rightarrow> result" where
  "simplex_unconstrain y w =
     (if \<not> length y > 0 then violation w
      else if \<not> dlt (dabs (fsub (Fin 1) (vsum y))) CONSTRAINT_TOLERANCE then violation w
      else let k_minus_1 = length y - 1;
               log_y_k = dlog (y ! k_minus_1)
           in simplex_loop y k_minus_1 log_y_k 0 w)"


subsection \<open>Outputs and checks, entry by entry\<close>


definition appended :: "writer \<Rightarrow> double list \<Rightarrow> writer" where
  "appended w xs = w\<lparr>data_r := data_r w @ xs\<rparr>"




subsection \<open>A client of the writer\<close>

text \<open>
  The constructor takes references to two vectors of the caller,
  \<^verbatim>\<open>writer(std::vector<T>& data_r, std::vector<int>& data_i)\<close>, and initialises
  the members with \<^verbatim>\<open>data_r_(data_r), data_i_(data_i)\<close>. The members are vectors,
  not references, so the initialisers copy-construct them. The caller's vectors live in
  a store, at the addresses \<open>a_r\<close> and \<open>a_i\<close>; the writer object holds its own two
  vectors. The methods reach the members only, so a method call leaves the store as it
  is. A client calls the methods one after the other; \<open>run\<close> stops at the first
  failed assertion. The two matrix methods are left out: they hand the matrix to
  \<^verbatim>\<open>factor_cov_matrix\<close>, which is not among the sources.
\<close>

record store =
  vec_r :: "nat \<Rightarrow> double list"
  vec_i :: "nat \<Rightarrow> int list"

definition writer_ctor :: "nat \<Rightarrow> nat \<Rightarrow> store \<Rightarrow> writer" where
  "writer_ctor a_r a_i st = \<lparr>data_r = vec_r st a_r, data_i = vec_i st a_i\<rparr>"

datatype call =
    Scalar double
  | ScalarPos double
  | ScalarLb double double
  | ScalarUb double double
  | ScalarLub double double double
  | Corr double
  | Prob double
  | PosOrdered "double list"
  | Simplex "double list"

fun invoke :: "call \<Rightarrow> writer \<Rightarrow> result" where
  "invoke (Scalar y) w = scalar_unconstrain y w"
| "invoke (ScalarPos y) w = scalar_pos_unconstrain y w"
| "invoke (ScalarLb lb y) w = scalar_lb_unconstrain lb y w"
| "invoke (ScalarUb ub y) w = scalar_ub_unconstrain ub y w"
| "invoke (ScalarLub lb ub y) w = scalar_lub_unconstrain lb ub y w"
| "invoke (Corr y) w = corr_unconstrain y w"
| "invoke (Prob y) w = prob_unconstrain y w"
| "invoke (PosOrdered y) w = pos_ordered_unconstrain y w"
| "invoke (Simplex y) w = simplex_unconstrain y w"

fun run :: "call list \<Rightarrow> store \<times> writer \<Rightarrow> (error \<times> store \<times> writer) + store \<times> writer" where
  "run [] (st, w) = Inr (st, w)"
| "run (c # cs) (st, w) =
     (case invoke c w of
        Inl (e, w') \<Rightarrow> Inl (e, st, w')
      | Inr w' \<Rightarrow> run cs (st, w'))"

definition empty_store :: store where
  "empty_store = \<lparr>vec_r = (\<lambda>a. []), vec_i = (\<lambda>a. [])\<rparr>"

definition empty_writer :: writer where
  "empty_writer = \<lparr>data_r = [], data_i = []\<rparr>"


section \<open>Properties of the codec\<close>

subsection \<open>The rounding error\<close>

text \<open>
  Rounding changes a real \<open>x\<close> by at most \<open>|x|\<close> divided by \<open>2\<close> to the
  power 53, plus half the smallest subnormal (\<open>tiny\<close>).
\<close>

lemma tiny_pos: "0 < tiny"
  unfolding tiny_def by (rule powr_gt_zero [THEN iffD2]) simp

lemma tiny_small: "tiny \<le> 1 / 2 ^ 100"
proof -
  have "tiny \<le> 2 powr (- 100)"
    unfolding tiny_def by (intro powr_mono) simp_all
  also have "\<dots> = 1 / 2 ^ 100" by (simp add: powr_neg_numeral)
  finally show ?thesis .
qed

lemma rne_error: "\<bar>of_int (rne r) - r\<bar> \<le> 1 / 2"
proof -
  have "of_int \<lfloor>r\<rfloor> \<le> r" "r < of_int \<lfloor>r\<rfloor> + 1" by linarith+
  then show ?thesis by (auto simp: rne_def Let_def)
qed

lemma ulp_bound:
  assumes "x \<noteq> 0"
  shows "(2::real) powr of_int (ulp_exp x) \<le> \<bar>x\<bar> / 2 ^ 52 + 2 * tiny"
proof (cases "\<lfloor>log 2 \<bar>x\<bar>\<rfloor> - 52 \<ge> - 1074")
  case True
  then have e: "ulp_exp x = \<lfloor>log 2 \<bar>x\<bar>\<rfloor> - 52" by (simp add: ulp_exp_def)
  have "(2::real) powr of_int \<lfloor>log 2 \<bar>x\<bar>\<rfloor> \<le> 2 powr log 2 \<bar>x\<bar>"
    by (intro powr_mono) simp_all
  also have "\<dots> = \<bar>x\<bar>" using assms by simp
  finally have le: "(2::real) powr of_int \<lfloor>log 2 \<bar>x\<bar>\<rfloor> \<le> \<bar>x\<bar>" .
  have "(2::real) powr 52 = 2 ^ 52" by simp
  then have "(2::real) powr of_int (ulp_exp x) = 2 powr of_int \<lfloor>log 2 \<bar>x\<bar>\<rfloor> / 2 ^ 52"
    unfolding e by (simp add: powr_diff)
  also have "\<dots> \<le> \<bar>x\<bar> / 2 ^ 52" using le by (simp add: divide_right_mono)
  finally show ?thesis using tiny_pos by linarith
next
  case False
  then have e: "ulp_exp x = - 1074" by (simp add: ulp_exp_def)
  have "(- 1074 :: real) = 1 + (- 1075)" by simp
  then have "(2::real) powr (- 1074) = 2 powr (1 + (- 1075))" by (simp only:)
  also have "\<dots> = 2 powr 1 * 2 powr (- 1075)" by (rule powr_add)
  also have "\<dots> = 2 * tiny" by (simp only: tiny_def powr_one_gt_zero_iff) simp
  finally have "(2::real) powr (- 1074) = 2 * tiny" .
  moreover have "(of_int (- 1074) :: real) = - 1074" by (simp only: of_int_minus of_int_numeral)
  ultimately have "(2::real) powr of_int (ulp_exp x) = 2 * tiny" unfolding e by (simp only:)
  then show ?thesis by simp
qed

lemma fl_error: "\<bar>fl x - x\<bar> \<le> \<bar>x\<bar> / 2 ^ 53 + tiny"
proof (cases "x = 0")
  case True
  then show ?thesis using tiny_pos by (simp add: fl_def)
next
  case False
  define p :: real where "p = 2 powr of_int (ulp_exp x)"
  have p: "0 < p" by (simp add: p_def)
  have "fl x - x = p * (of_int (rne (x / p)) - x / p)"
    using False p by (simp add: fl_def p_def algebra_simps)
  then have "\<bar>fl x - x\<bar> = p * \<bar>of_int (rne (x / p)) - x / p\<bar>"
    using p by (simp add: abs_mult)
  also have "\<dots> \<le> p * (1 / 2)"
    using rne_error [of "x / p"] p by (intro mult_left_mono) simp_all
  also have "\<dots> \<le> (\<bar>x\<bar> / 2 ^ 52 + 2 * tiny) * (1 / 2)"
    using ulp_bound [OF False] by (simp add: p_def)
  also have "\<dots> = \<bar>x\<bar> / 2 ^ 53 + tiny" by simp
  finally show ?thesis .
qed

lemma huge_big: "2 ^ 100 \<le> huge"
proof -
  have "(2::real) powr 100 \<le> huge"
    unfolding huge_def by (intro powr_mono) simp_all
  then show ?thesis by simp
qed


lemma dround_Fin:
  assumes "\<bar>x\<bar> \<le> 2 ^ 50"
  shows "dround x = Fin (fl x)"
proof -
  have "\<bar>fl x\<bar> \<le> \<bar>x\<bar> + \<bar>x\<bar> / 2 ^ 53 + tiny" using fl_error [of x] by linarith
  then have "\<bar>fl x\<bar> < 2 ^ 100" using assms tiny_small by simp
  then have "\<not> huge \<le> fl x" "\<not> fl x \<le> - huge" using huge_big by linarith+
  then show ?thesis by (simp add: dround_def)
qed

text \<open>
  The sum check away from its boundary: a computed sum within half the tolerance of 1
  passes, one at least one and a half tolerances away from 1 fails.
\<close>

lemma sum_check_passes:
  assumes "vsum y = Fin s" and "\<bar>1 - s\<bar> \<le> 5 / 10 ^ 9"
  shows "dlt (dabs (fsub (Fin 1) (vsum y))) CONSTRAINT_TOLERANCE"
proof -
  have "\<bar>1 - s\<bar> \<le> 2 ^ 50" using assms(2) by simp
  then have d: "fsub (Fin 1) (vsum y) = Fin (fl (1 - s))"
    using assms(1) by (simp add: fsub_def dsub_def dround_Fin)
  have "\<bar>fl (1 - s)\<bar> \<le> \<bar>1 - s\<bar> + \<bar>1 - s\<bar> / 2 ^ 53 + tiny"
    using fl_error [of "1 - s"] by linarith
  moreover have "1 / 10 ^ 8 - (1 / 10 ^ 8) / 2 ^ 53 - tiny \<le> fl (1 / 10 ^ 8)"
    using fl_error [of "1 / 10 ^ 8"] by (simp add: abs_le_iff)
  ultimately have "\<bar>fl (1 - s)\<bar> < fl (1 / 10 ^ 8)"
    using assms(2) tiny_small by simp
  then show ?thesis by (simp add: d CONSTRAINT_TOLERANCE_def)
qed

lemma sum_check_fails:
  assumes "vsum y = Fin s" and "15 / 10 ^ 9 \<le> \<bar>1 - s\<bar>"
  shows "\<not> dlt (dabs (fsub (Fin 1) (vsum y))) CONSTRAINT_TOLERANCE"
proof (cases "dround (1 - s) = Fin (fl (1 - s))")
  case True
  then have d: "fsub (Fin 1) (vsum y) = Fin (fl (1 - s))"
    using assms(1) by (simp add: fsub_def dsub_def)
  have "\<bar>1 - s\<bar> - \<bar>1 - s\<bar> / 2 ^ 53 - tiny \<le> \<bar>fl (1 - s)\<bar>"
    using fl_error [of "1 - s"] by linarith
  moreover have "fl (1 / 10 ^ 8) \<le> 1 / 10 ^ 8 + (1 / 10 ^ 8) / 2 ^ 53 + tiny"
    using fl_error [of "1 / 10 ^ 8"] by (simp add: abs_le_iff)
  ultimately have "fl (1 / 10 ^ 8) \<le> \<bar>fl (1 - s)\<bar>"
    using assms(2) tiny_small by simp
  then show ?thesis by (simp add: d CONSTRAINT_TOLERANCE_def)
next
  case False
  then have "dround (1 - s) = PInf \<or> dround (1 - s) = NInf"
    by (auto simp: dround_def split: if_splits)
  then have "dabs (fsub (Fin 1) (vsum y)) = PInf"
    using assms(1) by (auto simp: fsub_def dsub_def)
  then show ?thesis by (simp add: CONSTRAINT_TOLERANCE_def)
qed

subsection \<open>The loops\<close>

lemma simplex_loop_ok:
  "\<forall>j. i \<le> j \<and> j < k \<longrightarrow> dge (y ! j) (Fin 0) \<Longrightarrow>
   simplex_loop y k l i w =
     Inr (w\<lparr>data_r := data_r w @ map (\<lambda>j. dsub (dlog (y ! j)) l) [i..<k]\<rparr>)"
proof (induction y k l i w rule: simplex_loop.induct)
  case (1 y k l i w)
  show ?case
  proof (cases "i < k")
    case True
    then have ge: "dge (y ! i) (Fin 0)" using "1.prems" by simp
    have ih: "simplex_loop y k l (i + 1) (push_back (dsub (dlog (y ! i)) l) w) =
       Inr ((push_back (dsub (dlog (y ! i)) l) w)
             \<lparr>data_r := data_r (push_back (dsub (dlog (y ! i)) l) w)
                 @ map (\<lambda>j. dsub (dlog (y ! j)) l) [i + 1..<k]\<rparr>)"
      using "1.IH" [OF True] ge "1.prems" by simp
    show ?thesis
      using True ge ih
      by (subst simplex_loop.simps) (simp add: push_back_def upt_conv_Cons)
  next
    case False
    then show ?thesis by (subst simplex_loop.simps) simp
  qed
qed






text \<open>No sequence of method calls changes the caller's vectors.\<close>

lemma run_store_unchanged:
  "run cs (st, w) = Inr (st', w') \<Longrightarrow> st' = st"
proof (induction cs arbitrary: w)
  case Nil
  then show ?case by simp
next
  case (Cons c cs)
  then show ?case by (auto split: sum.splits prod.splits)
qed

subsection \<open>Where the appended values go\<close>

text \<open>
  C1. Every unconstrain method appends to the writer's own member vector, which the
  constructor copied from the caller's vector. A caller with empty vectors at addresses
  0 that constructs a writer on them and calls \<^verbatim>\<open>scalar_unconstrain(1.0)\<close> ends
  with the value \<open>1.0\<close> in the writer's member and with its own vector still empty:
  the appended value is not present in the caller-owned vector.
\<close>

theorem writer_appends_to_private_copy:
  "run [Scalar (Fin 1)] (empty_store, writer_ctor 0 0 empty_store)
     = Inr (empty_store, \<lparr>data_r = [Fin 1], data_i = []\<rparr>) \<and>
   vec_r empty_store 0 = []"
  by (simp add: writer_ctor_def empty_store_def scalar_unconstrain_def push_back_def)

subsection \<open>Sums computed in double\<close>

lemma fadd_Fin:
  "\<bar>x + y\<bar> \<le> 2 ^ 50 \<Longrightarrow> fadd (Fin x) (Fin y) = Fin (fl (x + y))"
  by (simp add: fadd_def dround_Fin)

lemma fl_near:
  assumes "\<bar>x\<bar> \<le> 4"
  shows "\<bar>fl x - x\<bar> \<le> 1 / 10 ^ 15"
proof -
  have "\<bar>fl x - x\<bar> \<le> \<bar>x\<bar> / 2 ^ 53 + tiny" by (rule fl_error)
  then show ?thesis using assms tiny_small by simp
qed

lemma far_from_one:
  fixes s c d t :: real
  assumes "\<bar>s - c\<bar> \<le> d" and "t + d \<le> c - 1"
  shows "t \<le> \<bar>1 - s\<bar>"
  using assms by linarith

lemma near_sum:
  fixes a b f g :: real
  assumes "\<bar>f - a\<bar> \<le> d" and "\<bar>g - (b + f)\<bar> \<le> d"
  shows "\<bar>g - (b + a)\<bar> \<le> 2 * d"
  using assms by linarith

text \<open>
  The vectors \<open>[0.5, 0.50000002]\<close> and \<open>[0.5, 0.500001]\<close> (the second entry the double
  nearest to the decimal): their computed sums are \<open>1 + 2e-8\<close> and \<open>1 + 1e-6\<close> to
  within \<open>1e-12\<close>. The vectors \<open>[2, -1]\<close> and \<open>[1, -1, 1]\<close> sum to 1.
\<close>

lemma sum_two_e8:
  "vsum [Fin (1 / 2), Fin (fl (1 / 2 + 2 / 10 ^ 8))] = Fin (fl (1 / 2 + fl (1 / 2 + 2 / 10 ^ 8)))"
  "\<bar>fl (1 / 2 + fl (1 / 2 + 2 / 10 ^ 8)) - (1 + 2 / 10 ^ 8)\<bar> \<le> 1 / 10 ^ 12"
  "0 \<le> fl (1 / 2 + 2 / 10 ^ 8)"
proof -
  have a: "\<bar>fl (1 / 2 + 2 / 10 ^ 8) - (1 / 2 + 2 / 10 ^ 8)\<bar> \<le> 1 / 10 ^ 15"
    by (rule fl_near) simp
  then show p: "0 \<le> fl (1 / 2 + 2 / 10 ^ 8)" unfolding abs_le_iff by simp
  have b: "\<bar>1 / 2 + fl (1 / 2 + 2 / 10 ^ 8)\<bar> \<le> 4" using a unfolding abs_le_iff by simp
  then show "vsum [Fin (1 / 2), Fin (fl (1 / 2 + 2 / 10 ^ 8))]
      = Fin (fl (1 / 2 + fl (1 / 2 + 2 / 10 ^ 8)))"
    by (simp add: fadd_Fin)
  show "\<bar>fl (1 / 2 + fl (1 / 2 + 2 / 10 ^ 8)) - (1 + 2 / 10 ^ 8)\<bar> \<le> 1 / 10 ^ 12"
    using near_sum [OF a fl_near [OF b]] by simp
qed

lemma sum_one_e6:
  "vsum [Fin (1 / 2), Fin (fl (1 / 2 + 1 / 10 ^ 6))] = Fin (fl (1 / 2 + fl (1 / 2 + 1 / 10 ^ 6)))"
  "\<bar>fl (1 / 2 + fl (1 / 2 + 1 / 10 ^ 6)) - (1 + 1 / 10 ^ 6)\<bar> \<le> 1 / 10 ^ 12"
proof -
  have a: "\<bar>fl (1 / 2 + 1 / 10 ^ 6) - (1 / 2 + 1 / 10 ^ 6)\<bar> \<le> 1 / 10 ^ 15"
    by (rule fl_near) simp
  have b: "\<bar>1 / 2 + fl (1 / 2 + 1 / 10 ^ 6)\<bar> \<le> 4" using a unfolding abs_le_iff by simp
  then show "vsum [Fin (1 / 2), Fin (fl (1 / 2 + 1 / 10 ^ 6))]
      = Fin (fl (1 / 2 + fl (1 / 2 + 1 / 10 ^ 6)))"
    by (simp add: fadd_Fin)
  show "\<bar>fl (1 / 2 + fl (1 / 2 + 1 / 10 ^ 6)) - (1 + 1 / 10 ^ 6)\<bar> \<le> 1 / 10 ^ 12"
    using near_sum [OF a fl_near [OF b]] by simp
qed

lemma sum_two_minus_one:
  "vsum [Fin 2, Fin (- 1)] = Fin (fl 1)" "\<bar>1 - fl 1\<bar> \<le> 5 / 10 ^ 9"
proof -
  show "vsum [Fin 2, Fin (- 1)] = Fin (fl 1)" by (simp add: fadd_Fin)
  show "\<bar>1 - fl 1\<bar> \<le> 5 / 10 ^ 9" using fl_near [of 1] unfolding abs_le_iff by simp
qed


text \<open>
  At the boundary of the tolerance the rounding decides. On \<open>[0.5, 0.50000001]\<close> the
  computed sum is \<open>1 + 45035996 / 2^52\<close>, about \<open>1 + 9.99999994e-9\<close>, which is
  inside the tolerance (the double nearest to \<open>1e-8\<close>), and the call succeeds.
\<close>

lemma fl_eval:
  fixes x :: real
  assumes "1 / 2 ^ k \<le> \<bar>x\<bar>" and "\<bar>x\<bar> < 2 / 2 ^ k" and "k \<le> 1022"
  shows "fl x = of_int (rne (x * 2 ^ (k + 52))) / 2 ^ (k + 52)"
proof -
  have pk: "(2::real) powr of_int (- int k) = 1 / 2 ^ k"
    by (simp add: powr_minus powr_realpow divide_inverse)
  have "(2::real) powr (1 + - real k) = 2 powr 1 * 2 powr (- real k)" by (rule powr_add)
  then have pk1: "(2::real) powr of_int (- int k + 1) = 2 / 2 ^ k"
    by (simp add: powr_minus powr_realpow divide_inverse add.commute)
  have pos: "0 < (2::real) ^ k" by simp
  have x: "x \<noteq> 0"
  proof
    assume "x = 0"
    then have "(2::real) ^ k \<le> 0" using assms(1) by simp
    then show False using pos by linarith
  qed
  have "\<lfloor>log 2 \<bar>x\<bar>\<rfloor> = - int k"
    using x assms(1,2) pk pk1 by (subst floor_log_eq_powr_iff) simp_all
  then have e: "ulp_exp x = - int k - 52" using assms(3) by (simp add: ulp_exp_def)
  have p: "(2::real) powr (- real k - 52) = 1 / 2 ^ (k + 52)"
  proof -
    have "- real k - 52 = - real (k + 52)" by simp
    then have "(2::real) powr (- real k - 52) = 2 powr (- real (k + 52))" by (simp only:)
    also have "\<dots> = 1 / 2 ^ (k + 52)"
      by (simp only: powr_minus powr_realpow zero_less_numeral divide_inverse mult_1)
    finally show ?thesis .
  qed
  show ?thesis using x by (simp add: fl_def e p)
qed

lemma fl_a: "fl (50000001 / 100000000) = 4503599717442489 / 2 ^ 53"
  by (subst fl_eval [where k = 1]) (simp_all add: rne_def)

lemma fl_s: "fl (1 / 2 + 4503599717442489 / 2 ^ 53) = 4503599672406492 / 2 ^ 52"
  by (subst fl_eval [where k = 0]) (simp_all add: rne_def)

lemma fl_d: "fl (1 - 4503599672406492 / 2 ^ 52) = - 6044629061337088 / 2 ^ 79"
  by (subst fl_eval [where k = 27]) (simp_all add: rne_def)

lemma fl_t: "fl (1 / 10 ^ 8) = 6044629098073146 / 2 ^ 79"
  by (subst fl_eval [where k = 27]) (simp_all add: rne_def)

lemma boundary_example:
  "vsum [Fin (1 / 2), Fin (fl (50000001 / 100000000))] = Fin (4503599672406492 / 2 ^ 52) \<and>
   fsub (Fin 1) (Fin (4503599672406492 / 2 ^ 52)) = Fin (- 6044629061337088 / 2 ^ 79) \<and>
   CONSTRAINT_TOLERANCE = Fin (6044629098073146 / 2 ^ 79) \<and>
   simplex_unconstrain [Fin (1 / 2), Fin (fl (50000001 / 100000000))] empty_writer
     = Inr (appended empty_writer
              [dsub (dlog (Fin (1 / 2))) (dlog (Fin (fl (50000001 / 100000000))))])"
proof -
  have v: "vsum [Fin (1 / 2), Fin (fl (50000001 / 100000000))] = Fin (4503599672406492 / 2 ^ 52)"
    using fl_s by (simp add: fl_a fadd_def dround_Fin)
  have d: "fsub (Fin 1) (Fin (4503599672406492 / 2 ^ 52)) = Fin (- 6044629061337088 / 2 ^ 79)"
    using fl_d by (simp add: fsub_def dsub_def dround_Fin)
  have t: "CONSTRAINT_TOLERANCE = Fin (6044629098073146 / 2 ^ 79)"
    using fl_t by (simp add: CONSTRAINT_TOLERANCE_def)
  have "simplex_unconstrain [Fin (1 / 2), Fin (fl (50000001 / 100000000))] empty_writer
     = Inr (appended empty_writer
              [dsub (dlog (Fin (1 / 2))) (dlog (Fin (fl (50000001 / 100000000))))])"
    unfolding simplex_unconstrain_def v d t
    by (simp add: simplex_loop.simps dge_def push_back_def appended_def empty_writer_def)
  then show ?thesis using v d t by simp
qed

subsection \<open>The simplex sum tolerance\<close>

text \<open>
  C4. \<^verbatim>\<open>simplex_unconstrain\<close> applied to a vector whose sum is \<open>1 + 2e-8\<close> raises
  the constraint violation, with nothing appended, and so does one whose sum is
  \<open>1 + 1e-6\<close>. The sum is the one the code computes in double, which is one of these
  two values to within its rounding error (here: to within \<open>1e-12\<close>).
\<close>

theorem simplex_sum_outside_tolerance:
  assumes "vsum y = Fin s"
    and "\<bar>s - (1 + 2 / 10 ^ 8)\<bar> \<le> 1 / 10 ^ 12 \<or> \<bar>s - (1 + 1 / 10 ^ 6)\<bar> \<le> 1 / 10 ^ 12"
  shows "simplex_unconstrain y w = violation w"
proof -
  have "15 / 10 ^ 9 \<le> \<bar>1 - s\<bar>"
    using assms(2) by (elim disjE) (erule far_from_one, simp)+
  from sum_check_fails [OF assms(1) this]
  show ?thesis by (simp add: simplex_unconstrain_def)
qed

text \<open>
  The theorem at \<open>[0.5, 0.50000002]\<close> and at \<open>[0.5, 0.500001]\<close>.
\<close>

theorem simplex_sum_outside_tolerance_witness:
  "vsum [Fin (1 / 2), Fin (fl (1 / 2 + 2 / 10 ^ 8))]
     = Fin (fl (1 / 2 + fl (1 / 2 + 2 / 10 ^ 8))) \<and>
   \<bar>fl (1 / 2 + fl (1 / 2 + 2 / 10 ^ 8)) - (1 + 2 / 10 ^ 8)\<bar> \<le> 1 / 10 ^ 12 \<and>
   simplex_unconstrain [Fin (1 / 2), Fin (fl (1 / 2 + 2 / 10 ^ 8))] empty_writer
     = violation empty_writer \<and>
   vsum [Fin (1 / 2), Fin (fl (1 / 2 + 1 / 10 ^ 6))]
     = Fin (fl (1 / 2 + fl (1 / 2 + 1 / 10 ^ 6))) \<and>
   \<bar>fl (1 / 2 + fl (1 / 2 + 1 / 10 ^ 6)) - (1 + 1 / 10 ^ 6)\<bar> \<le> 1 / 10 ^ 12 \<and>
   simplex_unconstrain [Fin (1 / 2), Fin (fl (1 / 2 + 1 / 10 ^ 6))] empty_writer
     = violation empty_writer"
  using simplex_sum_outside_tolerance [OF sum_two_e8(1), of empty_writer]
    simplex_sum_outside_tolerance [OF sum_one_e6(1), of empty_writer]
    sum_two_e8(1,2) sum_one_e6
  by blast

text \<open>
  The vector \<open>[0.5, 0.50000002]\<close> has non-negative entries and its sum is
  \<open>1 + 2e-8\<close>; \<^verbatim>\<open>simplex_unconstrain\<close> raises the constraint violation on it.
\<close>

theorem simplex_sum_counterexample:
  "dge (Fin (1 / 2)) (Fin 0) \<and> dge (Fin (fl (1 / 2 + 2 / 10 ^ 8))) (Fin 0) \<and>
   vsum [Fin (1 / 2), Fin (fl (1 / 2 + 2 / 10 ^ 8))]
     = Fin (fl (1 / 2 + fl (1 / 2 + 2 / 10 ^ 8))) \<and>
   \<bar>fl (1 / 2 + fl (1 / 2 + 2 / 10 ^ 8)) - (1 + 2 / 10 ^ 8)\<bar> \<le> 1 / 10 ^ 12 \<and>
   simplex_unconstrain [Fin (1 / 2), Fin (fl (1 / 2 + 2 / 10 ^ 8))] empty_writer
     = Inl (ConstraintViolation, empty_writer)"
proof -
  have "15 / 10 ^ 9 \<le> \<bar>1 - fl (1 / 2 + fl (1 / 2 + 2 / 10 ^ 8))\<bar>"
    using sum_two_e8(2) by (rule far_from_one) simp
  from sum_check_fails [OF sum_two_e8(1) this]
  have "simplex_unconstrain [Fin (1 / 2), Fin (fl (1 / 2 + 2 / 10 ^ 8))] empty_writer
     = Inl (ConstraintViolation, empty_writer)"
    by (simp add: simplex_unconstrain_def violation_def)
  then show ?thesis using sum_two_e8 by (simp add: dge_def)
qed

subsection \<open>The last entry of a simplex\<close>

text \<open>
  C5. The loop of \<^verbatim>\<open>simplex_unconstrain\<close> asserts \<open>y[i] >= 0.0\<close> for
  \<open>i < K - 1\<close> only; the last entry is read (\<open>log(y[K-1])\<close>) and never checked. On
  \<open>[2, -1]\<close>, whose sum is 1 and whose last entry is negative, no constraint
  violation is raised and the not-a-number \<open>log(2) - log(-1)\<close> is appended.
\<close>

theorem simplex_negative_last_accepted:
  "\<not> dge (Fin (- 1)) (Fin 0) \<and>
   simplex_unconstrain [Fin 2, Fin (- 1)] empty_writer
     = Inr \<lparr>data_r = [NaN], data_i = []\<rparr>"
  using sum_check_passes [OF sum_two_minus_one]
  by (simp add: simplex_unconstrain_def dsub_def dge_def
      empty_writer_def simplex_loop.simps push_back_def)

subsection \<open>The buffer when a transform fails\<close>




subsection \<open>Equal bounds\<close>


text \<open>
  C10. The doubly-bounded transform does not require the lower bound to be strictly
  below the upper bound. When \<open>lb = ub\<close> and \<open>y = lb\<close> (any finite value), both
  assertions \<open>lb <= y\<close> and \<open>y <= ub\<close> pass, no constraint violation is raised, and
  the value appended to the buffer is \<open>logit(0/0)\<close>, which is not-a-number.
\<close>

theorem lub_equal_bounds_appends_nan:
  "dle (Fin b) (Fin b) \<and>
   ddiv (dsub (Fin b) (Fin b)) (dsub (Fin b) (Fin b)) = NaN \<and>
   scalar_lub_unconstrain (Fin b) (Fin b) (Fin b) w = Inr (w\<lparr>data_r := data_r w @ [NaN]\<rparr>)"
  by (simp add: scalar_lub_unconstrain_def logit_def dsub_def push_back_def)


section \<open>The random source\<close>

text \<open>
  Modelled from the spec: the sampler draws from \<^verbatim>\<open>stan::prob::bernoulli_rng\<close>,
  \<^verbatim>\<open>stan::prob::normal_rng\<close> and the \<^verbatim>\<open>_rand_uniform\<close> member of
  \<^verbatim>\<open>base_ensemble\<close>, none of which is among the sources. The spec gives the random
  source as three primitives, \<open>bernoulli(p)\<close> in \<open>{0, 1}\<close>, \<open>normal(mean, sd)\<close> and
  \<open>uniform()\<close> in \<open>[0, 1)\<close>. The source is modelled by the three streams of outcomes
  that the calls of one run return, in the order of the calls: a draw returns the head
  of its stream and leaves the tail.
\<close>

record rng =
  bernoulli_draws :: "int stream"
  normal_draws :: "double stream"
  uniform_draws :: "double stream"

definition bernoulli_rng :: "rng \<Rightarrow> int \<times> rng" where
  "bernoulli_rng g = (shd (bernoulli_draws g), g\<lparr>bernoulli_draws := stl (bernoulli_draws g)\<rparr>)"

definition normal_rng :: "rng \<Rightarrow> double \<times> rng" where
  "normal_rng g = (shd (normal_draws g), g\<lparr>normal_draws := stl (normal_draws g)\<rparr>)"

definition rand_uniform :: "rng \<Rightarrow> double \<times> rng" where
  "rand_uniform g = (shd (uniform_draws g), g\<lparr>uniform_draws := stl (uniform_draws g)\<rparr>)"

text \<open>A uniform draw lies in \<open>[0, 1)\<close>.\<close>

fun unit_draw :: "double \<Rightarrow> bool" where
  "unit_draw (Fin x) = (0 \<le> x \<and> x < 1)"
| "unit_draw _ = False"

section \<open>The walk-move ensemble sampler (\<^verbatim>\<open>walk_move_ensemble\<close>)\<close>

subsection \<open>Companion selection\<close>

text \<open>
  \<^verbatim>\<open>choose_walkers(index, num_walkers)\<close>. \<open>choose_round\<close> is the inner
  \<^verbatim>\<open>for\<close> loop from \<open>i\<close> on, which draws one indicator for each of the
  \<open>num_walkers - 1\<close> other walkers and appends \<open>i + 2\<close> or \<open>i + 1\<close> on success.
  \<open>choose_loop\<close> is the outer \<^verbatim>\<open>while (walkers.size() <= 1)\<close> loop, which
  empties the list and runs a round. The outer loop has no bound: when it never ends
  the result is \<open>None\<close>.
\<close>

function choose_round :: "int \<Rightarrow> int \<Rightarrow> int \<Rightarrow> int list \<Rightarrow> rng \<Rightarrow> int list \<times> rng" where
  "choose_round index num_walkers i walkers g =
     (if i < num_walkers - 1 then
        (case bernoulli_rng g of
           (temp, g') \<Rightarrow>
             choose_round index num_walkers (i + 1)
               (if temp \<noteq> 0 then
                  (if i \<ge> index then walkers @ [i + 2] else walkers @ [i + 1])
                else walkers) g')
      else (walkers, g))"
  by pat_completeness auto
termination
  by (relation "measure (\<lambda>(index, num_walkers, i, walkers, g). nat (num_walkers - 1 - i))") auto

declare choose_round.simps [simp del]

partial_function (option) choose_loop ::
  "int \<Rightarrow> int \<Rightarrow> int list \<Rightarrow> rng \<Rightarrow> (int list \<times> rng) option" where
  "choose_loop index num_walkers walkers g =
     (if length walkers \<le> 1 then
        (let r = choose_round index num_walkers 0 [] g
         in choose_loop index num_walkers (fst r) (snd r))
      else Some (walkers, g))"

definition choose_walkers :: "int \<Rightarrow> int \<Rightarrow> rng \<Rightarrow> (int list \<times> rng) option" where
  "choose_walkers index num_walkers g = choose_loop index num_walkers [] g"


definition skip_rounds :: "int \<Rightarrow> nat \<Rightarrow> rng \<Rightarrow> rng" where
  "skip_rounds num_walkers r g =
     g\<lparr>bernoulli_draws := sdrop (r * nat (num_walkers - 1)) (bernoulli_draws g)\<rparr>"


text \<open>
  What a returning call of the outer loop can return: a list of at least two entries
  that is either the list it was entered with or the list of some round.
\<close>

definition loop_result :: "int \<Rightarrow> int \<Rightarrow> int list \<Rightarrow> rng \<Rightarrow> int list \<times> rng \<Rightarrow> bool" where
  "loop_result index n ws g y \<longleftrightarrow>
     2 \<le> length (fst y) \<and>
     (y = (ws, g) \<or>
      (\<exists>r. fst y = fst (choose_round index n 0 [] (skip_rounds n r g)) \<and>
           snd y = skip_rounds n (Suc r) g))"

subsection \<open>The sweep\<close>

text \<open>
  Eigen vectors are lists of doubles; the three vector operations of the proposal are
  entry-wise. \<^verbatim>\<open>mean_walkers\<close> sums, for each coordinate, the entries of the
  chosen walkers divided by their number.
\<close>

definition vsub :: "double list \<Rightarrow> double list \<Rightarrow> double list" where
  "vsub a b = map (\<lambda>(x, y). dsub x y) (zip a b)"

definition vadd :: "double list \<Rightarrow> double list \<Rightarrow> double list" where
  "vadd a b = map (\<lambda>(x, y). dadd x y) (zip a b)"

definition vscale :: "double \<Rightarrow> double list \<Rightarrow> double list" where
  "vscale z a = map (dmul z) a"

definition mean_walkers :: "int list \<Rightarrow> double list list \<Rightarrow> double list" where
  "mean_walkers walker_index cur_states =
     map (\<lambda>i. foldl (\<lambda>m w. dadd m (ddiv (cur_states ! nat (w - 1) ! i)
                                      (Fin (real (length walker_index)))))
                (Fin 0) walker_index)
         [0..<length (cur_states ! 0)]"

text \<open>
  \<^verbatim>\<open>ensemble_transition\<close> takes four references: \<^verbatim>\<open>cur_states\<close> and
  \<^verbatim>\<open>new_states\<close> to vectors of Eigen vectors, \<^verbatim>\<open>logp\<close> and
  \<^verbatim>\<open>accept_prob\<close> to Eigen vectors. Nothing in the signature keeps two of them
  from naming the same object, so the objects live in a store and the function takes
  their addresses: \<open>ens\<close> holds the vectors of walker positions, \<open>vecs\<close> the Eigen
  vectors, and \<open>rnd\<close> is the random source. Every read and write below goes through
  the store at the moment the source makes it. The buffers are taken to be long enough
  for the indices the code uses (the theorems say so where it matters).
\<close>

record sampler_state =
  ens :: "nat \<Rightarrow> double list list"
  vecs :: "nat \<Rightarrow> double list"
  rnd :: rng

definition set_ens :: "nat \<Rightarrow> nat \<Rightarrow> double list \<Rightarrow> sampler_state \<Rightarrow> sampler_state" where
  "set_ens a i v s = s\<lparr>ens := (ens s)(a := (ens s a)[i := v])\<rparr>"

definition set_vec :: "nat \<Rightarrow> nat \<Rightarrow> double \<Rightarrow> sampler_state \<Rightarrow> sampler_state" where
  "set_vec a i x s = s\<lparr>vecs := (vecs s)(a := (vecs s a)[i := x])\<rparr>"

text \<open>
  The body of the loop over the walkers, in three parts. \<open>propose_loop\<close> is the
  inner loop \<^verbatim>\<open>new_states[i] += normal_rng(0.0, 1.0, ...) * (cur_states[rand_walkers[j]-1] - mean_rand_walkers)\<close>.
  \<open>propose\<close> is the body from the choice of the companions to the end of that loop.
  \<open>accept_reject\<close> is the rest of the body: the log-density of the proposal, the
  replacement of not-a-number by infinity, the acceptance probability and its clamp,
  the uniform draw and the rejection. \<open>walker_step\<close> is the whole body: it computes
  \<open>logp0\<close> first and runs the two parts.
\<close>

fun propose_loop :: "nat \<Rightarrow> nat \<Rightarrow> nat \<Rightarrow> double list \<Rightarrow> int list \<Rightarrow> sampler_state \<Rightarrow> sampler_state" where
  "propose_loop cur new i mean [] s = s"
| "propose_loop cur new i mean (w # ws) s =
     (case normal_rng (rnd s) of
        (z, g) \<Rightarrow>
          propose_loop cur new i mean ws
            (set_ens new i
               (vadd (ens s new ! i) (vscale z (vsub (ens s cur ! nat (w - 1)) mean)))
               (s\<lparr>rnd := g\<rparr>)))"

definition propose :: "nat \<Rightarrow> nat \<Rightarrow> nat \<Rightarrow> sampler_state \<Rightarrow> sampler_state option" where
  "propose cur new i s =
     (let num_walkers = int (length (ens s cur)) in
      case choose_walkers (int i) num_walkers (rnd s) of
        None \<Rightarrow> None
      | Some (rand_walkers, g) \<Rightarrow>
          let s1 = s\<lparr>rnd := g\<rparr>;
              mean_rand_walkers = mean_walkers rand_walkers (ens s1 cur);
              s2 = set_ens new i (ens s1 cur ! i) s1
          in Some (propose_loop cur new i mean_rand_walkers rand_walkers s2))"

definition accept_reject ::
  "(double list \<Rightarrow> double) \<Rightarrow> nat \<Rightarrow> nat \<Rightarrow> nat \<Rightarrow> nat \<Rightarrow> nat \<Rightarrow> double \<Rightarrow>
     sampler_state \<Rightarrow> sampler_state" where
  "accept_reject log_prob cur new lp ap i logp0 s =
     (let s1 = set_vec lp i (log_prob (ens s new ! i)) s;
          s2 = (if isnan (vecs s1 lp ! i) then set_vec lp i PInf s1 else s1);
          s3 = set_vec ap i (dexp (dsub (vecs s2 lp ! i) logp0)) s2;
          s4 = set_vec ap i (if dgt (vecs s3 ap ! i) (Fin 1) then Fin 1 else vecs s3 ap ! i) s3
      in case rand_uniform (rnd s4) of
           (u, g) \<Rightarrow>
             let s5 = s4\<lparr>rnd := g\<rparr>
             in if dgt u (vecs s5 ap ! i)
                then set_vec lp i logp0 (set_ens new i (ens s5 cur ! i) s5)
                else s5)"

definition walker_step ::
  "(double list \<Rightarrow> double) \<Rightarrow> nat \<Rightarrow> nat \<Rightarrow> nat \<Rightarrow> nat \<Rightarrow> nat \<Rightarrow>
     sampler_state \<Rightarrow> sampler_state option" where
  "walker_step log_prob cur new lp ap i s =
     (let logp0 = log_prob (ens s cur ! i) in
      case propose cur new i s of
        None \<Rightarrow> None
      | Some s' \<Rightarrow> Some (accept_reject log_prob cur new lp ap i logp0 s'))"

text \<open>
  Names for the values the body computes: the log-density of a proposal after the
  replacement of not-a-number, and the clamped acceptance probability. \<open>dmin\<close> is the
  minimum of two doubles, as the specification writes it
  (\<open>min(1, exp(logp_new - logp0))\<close>).
\<close>

definition logp_new :: "(double list \<Rightarrow> double) \<Rightarrow> double list \<Rightarrow> double" where
  "logp_new log_prob x = (if isnan (log_prob x) then PInf else log_prob x)"

definition acceptance :: "double \<Rightarrow> double \<Rightarrow> double" where
  "acceptance lpn logp0 =
     (if dgt (dexp (dsub lpn logp0)) (Fin 1) then Fin 1 else dexp (dsub lpn logp0))"

definition dmin :: "double \<Rightarrow> double \<Rightarrow> double" where
  "dmin a b = (if dle a b then a else b)"

subsection \<open>A concrete ensemble\<close>

text \<open>
  Three walkers of dimension 1 at the positions 0, 1 and 2. The current positions are
  the object at address 0 of \<open>ens\<close>, the next-state buffer the object at address 1;
  \<^verbatim>\<open>logp\<close> is the object at address 0 of \<open>vecs\<close> and \<^verbatim>\<open>accept_prob\<close> the
  object at address 1. \<open>fixed_rng\<close> always selects both other walkers, always draws
  the normal value 0 and the uniform value 0. \<open>demo_rng\<close> draws the normal value 1
  first and the uniform value 1/2.
\<close>

definition fixed_rng :: rng where
  "fixed_rng = \<lparr>bernoulli_draws = sconst 1, normal_draws = sconst (Fin 0),
                uniform_draws = sconst (Fin 0)\<rparr>"

definition scenario :: "rng \<Rightarrow> double list list \<Rightarrow> double list \<Rightarrow> double list \<Rightarrow> sampler_state" where
  "scenario g ns lps aps =
     \<lparr>ens = (\<lambda>a. if a = 0 then [[Fin 0], [Fin 1], [Fin 2]] else if a = 1 then ns else []),
      vecs = (\<lambda>a. if a = 0 then lps else if a = 1 then aps else []),
      rnd = g\<rparr>"

definition demo_rng :: rng where
  "demo_rng = \<lparr>bernoulli_draws = sconst 1, normal_draws = Fin 1 ## sconst (Fin 0),
               uniform_draws = sconst (Fin (1 / 2))\<rparr>"

definition demo_rng' :: rng where
  "demo_rng' = \<lparr>bernoulli_draws = sconst 1, normal_draws = sconst (Fin 0),
               uniform_draws = sconst (Fin (1 / 2))\<rparr>"

definition demo_state :: sampler_state where
  "demo_state = scenario demo_rng [[Fin 9], [Fin 9], [Fin 9]] [Fin 7, Fin 7, Fin 7] [Fin 7, Fin 7, Fin 7]"

definition demo_proposed :: sampler_state where
  "demo_proposed = scenario demo_rng' [[Fin (- 1 / 2)], [Fin 9], [Fin 9]] [Fin 7, Fin 7, Fin 7] [Fin 7, Fin 7, Fin 7]"

definition other_state :: sampler_state where
  "other_state = scenario demo_rng [[Fin 5], [Fin 5], [Fin 5]] [Fin 3, Fin 3, Fin 3] [Fin 4, Fin 4, Fin 4]"

definition flat_logp :: "double list \<Rightarrow> double" where
  "flat_logp x = Fin 0"

definition nan_logp :: "double list \<Rightarrow> double" where
  "nan_logp x = (if x = [Fin (- 1 / 2)] then NaN else Fin 0)"

definition ninf_logp :: "double list \<Rightarrow> double" where
  "ninf_logp x = NInf"

definition low_logp :: "double list \<Rightarrow> double" where
  "low_logp x = (if x = [Fin (- 1 / 2)] then NInf else Fin 0)"

definition nan_cur_logp :: "double list \<Rightarrow> double" where
  "nan_cur_logp x = (if x = [Fin 0] then NaN else Fin 0)"

section \<open>Properties of the companion selection\<close>

lemma choose_round_rng:
  "snd (choose_round index n i ws g) =
     g\<lparr>bernoulli_draws := sdrop (nat (n - 1 - i)) (bernoulli_draws g)\<rparr>"
proof (induction index n i ws g rule: choose_round.induct)
  case (1 index n i ws g)
  show ?case
  proof (cases "i < n - 1")
    case False
    then show ?thesis by (subst choose_round.simps) simp
  next
    case True
    then have "nat (n - 1 - i) = Suc (nat (n - 1 - (i + 1)))" by simp
    then show ?thesis
      using True "1.IH" [OF True, of "shd (bernoulli_draws g)" "g\<lparr>bernoulli_draws := stl (bernoulli_draws g)\<rparr>"]
      by (subst choose_round.simps) (simp add: bernoulli_rng_def)
  qed
qed



lemma skip_rounds_0: "skip_rounds n 0 g = g"
  by (simp add: skip_rounds_def)

lemma skip_rounds_Suc:
  "skip_rounds n r (snd (choose_round index n 0 [] g)) = skip_rounds n (Suc r) g"
  by (simp add: choose_round_rng skip_rounds_def sdrop_add add.commute)


lemma choose_loop_result:
  assumes "choose_loop index n ws g = Some y"
  shows "loop_result index n ws g y"
proof (rule choose_loop.raw_induct [where P = loop_result, OF _ assms])
  fix f :: "int \<Rightarrow> int \<Rightarrow> int list \<Rightarrow> rng \<Rightarrow> (int list \<times> rng) option"
    and index n ws g y
  assume IH: "\<And>index n ws g y. f index n ws g = Some y \<Longrightarrow> loop_result index n ws g y"
    and body: "(if length ws \<le> 1 then
        (let r = choose_round index n 0 [] g in f index n (fst r) (snd r))
      else Some (ws, g)) = Some y"
  show "loop_result index n ws g y"
  proof (cases "length ws \<le> 1")
    case False
    then show ?thesis using body by (auto simp: loop_result_def)
  next
    case True
    let ?r = "choose_round index n 0 [] g"
    have "f index n (fst ?r) (snd ?r) = Some y"
      using body True by (simp add: Let_def)
    from IH [OF this]
    have len: "2 \<le> length (fst y)"
      and alt: "y = (fst ?r, snd ?r) \<or>
        (\<exists>r. fst y = fst (choose_round index n 0 [] (skip_rounds n r (snd ?r))) \<and>
             snd y = skip_rounds n (Suc r) (snd ?r))"
      by (auto simp: loop_result_def)
    from alt have "\<exists>r. fst y = fst (choose_round index n 0 [] (skip_rounds n r g)) \<and>
         snd y = skip_rounds n (Suc r) g"
    proof
      assume "y = (fst ?r, snd ?r)"
      then have "fst y = fst (choose_round index n 0 [] (skip_rounds n 0 g)) \<and>
         snd y = skip_rounds n (Suc 0) g"
        using skip_rounds_Suc [of n 0 index g] by (simp add: skip_rounds_0)
      then show ?thesis by blast
    next
      assume "\<exists>r. fst y = fst (choose_round index n 0 [] (skip_rounds n r (snd ?r))) \<and>
             snd y = skip_rounds n (Suc r) (snd ?r)"
      then obtain r where "fst y = fst (choose_round index n 0 [] (skip_rounds n r (snd ?r)))"
        "snd y = skip_rounds n (Suc r) (snd ?r)" by blast
      then have "fst y = fst (choose_round index n 0 [] (skip_rounds n (Suc r) g)) \<and>
         snd y = skip_rounds n (Suc (Suc r)) g"
        by (simp add: skip_rounds_Suc)
      then show ?thesis by blast
    qed
    with len show ?thesis by (simp add: loop_result_def)
  qed
qed


lemma choose_round_fixed:
  "choose_round 0 3 0 [] fixed_rng = ([2, 3], fixed_rng)"
  "choose_round 1 3 0 [] fixed_rng = ([1, 3], fixed_rng)"
  "choose_round 2 3 0 [] fixed_rng = ([1, 2], fixed_rng)"
  by (simp_all add: choose_round.simps bernoulli_rng_def fixed_rng_def)

lemma choose_walkers_fixed:
  "choose_walkers 0 3 fixed_rng = Some ([2, 3], fixed_rng)"
  "choose_walkers 1 3 fixed_rng = Some ([1, 3], fixed_rng)"
  "choose_walkers 2 3 fixed_rng = Some ([1, 2], fixed_rng)"
  by (simp_all add: choose_walkers_def choose_loop.simps choose_round_fixed)



section \<open>Properties of the sweep\<close>

subsection \<open>What each part of the body reads and writes\<close>

lemma set_ens_simps [simp]:
  "vecs (set_ens a i v s) = vecs s"
  "rnd (set_ens a i v s) = rnd s"
  "b \<noteq> a \<Longrightarrow> ens (set_ens a i v s) b = ens s b"
  "length (ens (set_ens a i v s) b) = length (ens s b)"
  "j \<noteq> i \<Longrightarrow> ens (set_ens a i v s) b ! j = ens s b ! j"
  "i < length (ens s a) \<Longrightarrow> ens (set_ens a i v s) a ! i = v"
  by (simp_all add: set_ens_def)

lemma set_vec_simps [simp]:
  "ens (set_vec a i x s) = ens s"
  "rnd (set_vec a i x s) = rnd s"
  "b \<noteq> a \<Longrightarrow> vecs (set_vec a i x s) b = vecs s b"
  "length (vecs (set_vec a i x s) b) = length (vecs s b)"
  "j \<noteq> i \<Longrightarrow> vecs (set_vec a i x s) b ! j = vecs s b ! j"
  "i < length (vecs s a) \<Longrightarrow> vecs (set_vec a i x s) a ! i = x"
  by (simp_all add: set_vec_def)

lemma propose_loop_frame:
  "vecs (propose_loop cur new i mean ws s) = vecs s \<and>
   (\<forall>a. a \<noteq> new \<longrightarrow> ens (propose_loop cur new i mean ws s) a = ens s a) \<and>
   (\<forall>a. length (ens (propose_loop cur new i mean ws s) a) = length (ens s a)) \<and>
   (\<forall>a j. j \<noteq> i \<longrightarrow> ens (propose_loop cur new i mean ws s) a ! j = ens s a ! j) \<and>
   bernoulli_draws (rnd (propose_loop cur new i mean ws s)) = bernoulli_draws (rnd s) \<and>
   uniform_draws (rnd (propose_loop cur new i mean ws s)) = uniform_draws (rnd s)"
proof (induction ws arbitrary: s)
  case Nil
  show ?case by simp
next
  case (Cons w ws)
  show ?case by (simp add: Cons.IH normal_rng_def)
qed

lemma propose_loop_reads:
  assumes "cur \<noteq> new" and "ens s cur = ens t cur" and "rnd s = rnd t"
    and "ens s new ! i = ens t new ! i"
    and "i < length (ens s new)" and "i < length (ens t new)"
  shows "ens (propose_loop cur new i mean ws s) new ! i
           = ens (propose_loop cur new i mean ws t) new ! i \<and>
         rnd (propose_loop cur new i mean ws s) = rnd (propose_loop cur new i mean ws t)"
  using assms
proof (induction ws arbitrary: s t)
  case Nil
  then show ?case by simp
next
  case (Cons w ws)
  let ?z = "shd (normal_draws (rnd t))"
  let ?g = "(rnd t)\<lparr>normal_draws := stl (normal_draws (rnd t))\<rparr>"
  let ?v = "vadd (ens t new ! i) (vscale ?z (vsub (ens t cur ! nat (w - 1)) mean))"
  have "ens (propose_loop cur new i mean ws (set_ens new i ?v (s\<lparr>rnd := ?g\<rparr>))) new ! i
           = ens (propose_loop cur new i mean ws (set_ens new i ?v (t\<lparr>rnd := ?g\<rparr>))) new ! i \<and>
        rnd (propose_loop cur new i mean ws (set_ens new i ?v (s\<lparr>rnd := ?g\<rparr>)))
           = rnd (propose_loop cur new i mean ws (set_ens new i ?v (t\<lparr>rnd := ?g\<rparr>)))"
    using Cons.prems by (intro Cons.IH) (simp_all add: set_ens_def)
  then show ?case using Cons.prems by (simp add: normal_rng_def)
qed

lemma choose_walkers_rng:
  assumes "choose_walkers index n g = Some (ws, g')"
  shows "normal_draws g' = normal_draws g \<and> uniform_draws g' = uniform_draws g"
  using choose_loop_result [OF assms [unfolded choose_walkers_def]]
  by (auto simp: loop_result_def skip_rounds_def)

lemma propose_frame:
  assumes "propose cur new i s = Some s1"
  shows "vecs s1 = vecs s \<and>
   (\<forall>a. a \<noteq> new \<longrightarrow> ens s1 a = ens s a) \<and>
   (\<forall>a. length (ens s1 a) = length (ens s a)) \<and>
   (\<forall>a j. j \<noteq> i \<longrightarrow> ens s1 a ! j = ens s a ! j) \<and>
   uniform_draws (rnd s1) = uniform_draws (rnd s)"
proof -
  obtain ws g where c: "choose_walkers (int i) (int (length (ens s cur))) (rnd s) = Some (ws, g)"
    and s1: "s1 = propose_loop cur new i (mean_walkers ws (ens s cur)) ws
                    (set_ens new i (ens s cur ! i) (s\<lparr>rnd := g\<rparr>))"
    using assms by (auto simp: propose_def Let_def split: option.splits)
  show ?thesis
    using propose_loop_frame [of cur new i "mean_walkers ws (ens s cur)" ws
        "set_ens new i (ens s cur ! i) (s\<lparr>rnd := g\<rparr>)"] choose_walkers_rng [OF c]
    unfolding s1 by (simp add: set_ens_def)
qed

lemma propose_reads:
  assumes "propose cur new i s = Some s1" and "cur \<noteq> new"
    and "ens t cur = ens s cur" and "rnd t = rnd s"
    and "i < length (ens s new)" and "i < length (ens t new)"
  shows "\<exists>t1. propose cur new i t = Some t1 \<and> ens t1 new ! i = ens s1 new ! i \<and>
           rnd t1 = rnd s1"
proof -
  obtain ws g where c: "choose_walkers (int i) (int (length (ens s cur))) (rnd s) = Some (ws, g)"
    and s1: "s1 = propose_loop cur new i (mean_walkers ws (ens s cur)) ws
                    (set_ens new i (ens s cur ! i) (s\<lparr>rnd := g\<rparr>))"
    using assms(1) by (auto simp: propose_def Let_def split: option.splits)
  let ?t1 = "propose_loop cur new i (mean_walkers ws (ens s cur)) ws
                    (set_ens new i (ens s cur ! i) (t\<lparr>rnd := g\<rparr>))"
  have "propose cur new i t = Some ?t1"
    using c assms(3,4) by (simp add: propose_def Let_def)
  moreover have "ens ?t1 new ! i = ens s1 new ! i \<and> rnd ?t1 = rnd s1"
    unfolding s1 using assms(2-6)
    by (intro propose_loop_reads) (simp_all add: set_ens_def)
  ultimately show ?thesis by blast
qed

lemma accept_reject_frame:
  "(\<forall>b. b \<noteq> new \<longrightarrow> ens (accept_reject log_prob cur new lp ap i logp0 s) b = ens s b) \<and>
   (\<forall>b. length (ens (accept_reject log_prob cur new lp ap i logp0 s) b) = length (ens s b)) \<and>
   (\<forall>b j. j \<noteq> i \<longrightarrow> ens (accept_reject log_prob cur new lp ap i logp0 s) b ! j = ens s b ! j) \<and>
   (\<forall>b. b \<noteq> lp \<and> b \<noteq> ap \<longrightarrow> vecs (accept_reject log_prob cur new lp ap i logp0 s) b = vecs s b) \<and>
   (\<forall>b. length (vecs (accept_reject log_prob cur new lp ap i logp0 s) b) = length (vecs s b)) \<and>
   (\<forall>b j. j \<noteq> i \<longrightarrow> vecs (accept_reject log_prob cur new lp ap i logp0 s) b ! j = vecs s b ! j) \<and>
   rnd (accept_reject log_prob cur new lp ap i logp0 s)
     = (rnd s)\<lparr>uniform_draws := stl (uniform_draws (rnd s))\<rparr>"
  by (simp add: accept_reject_def Let_def rand_uniform_def)

lemma accept_reject_slot:
  assumes "lp \<noteq> ap" and "i < length (vecs s lp)" and "i < length (vecs s ap)"
  shows "vecs (accept_reject log_prob cur new lp ap i logp0 s) ap ! i
           = acceptance (logp_new log_prob (ens s new ! i)) logp0 \<and>
         vecs (accept_reject log_prob cur new lp ap i logp0 s) lp ! i
           = (if dgt (shd (uniform_draws (rnd s)))
                     (acceptance (logp_new log_prob (ens s new ! i)) logp0)
              then logp0 else logp_new log_prob (ens s new ! i)) \<and>
         ens (accept_reject log_prob cur new lp ap i logp0 s) new
           = (if dgt (shd (uniform_draws (rnd s)))
                     (acceptance (logp_new log_prob (ens s new ! i)) logp0)
              then (ens s new)[i := ens s cur ! i] else ens s new)"
  using assms
  by (simp add: accept_reject_def Let_def rand_uniform_def logp_new_def acceptance_def set_ens_def)

lemma walker_step_length:
  assumes "walker_step log_prob cur new lp ap i s = Some s'"
  shows "length (ens s' b) = length (ens s b)"
proof -
  obtain s1 where p: "propose cur new i s = Some s1"
    and s': "s' = accept_reject log_prob cur new lp ap i (log_prob (ens s cur ! i)) s1"
    using assms by (auto simp: walker_step_def Let_def split: option.splits)
  show ?thesis using propose_frame [OF p] accept_reject_frame [of new log_prob cur lp ap i _ s1]
    unfolding s' by simp
qed

lemma walker_step_split:
  assumes "propose cur new i s = Some s1"
  shows "walker_step log_prob cur new lp ap i s
           = Some (accept_reject log_prob cur new lp ap i (log_prob (ens s cur ! i)) s1)"
  using assms by (simp add: walker_step_def)

subsection \<open>The loop over the walkers\<close>

text \<open>
  \<^verbatim>\<open>for (int i = 0; i < cur_states.size(); i++)\<close>, from \<open>i\<close> on. A step keeps
  the number of walkers, so the loop ends unless a step does not return.
\<close>

function ensemble_loop ::
  "(double list \<Rightarrow> double) \<Rightarrow> nat \<Rightarrow> nat \<Rightarrow> nat \<Rightarrow> nat \<Rightarrow> nat \<Rightarrow>
     sampler_state \<Rightarrow> sampler_state option" where
  "ensemble_loop log_prob cur new lp ap i s =
     (if i < length (ens s cur) then
        (case walker_step log_prob cur new lp ap i s of
           None \<Rightarrow> None
         | Some s' \<Rightarrow> ensemble_loop log_prob cur new lp ap (i + 1) s')
      else Some s)"
  by pat_completeness auto
termination
  by (relation "measure (\<lambda>(log_prob, cur, new, lp, ap, i, s). length (ens s cur) - i)")
     (auto simp: walker_step_length)

declare ensemble_loop.simps [simp del]

definition ensemble_transition ::
  "(double list \<Rightarrow> double) \<Rightarrow> nat \<Rightarrow> nat \<Rightarrow> nat \<Rightarrow> nat \<Rightarrow>
     sampler_state \<Rightarrow> sampler_state option" where
  "ensemble_transition log_prob cur new lp ap s = ensemble_loop log_prob cur new lp ap 0 s"

lemma ensemble_loop_frame:
  assumes "ensemble_loop log_prob cur new lp ap i s = Some s'" and "cur \<noteq> new"
  shows "ens s' cur = ens s cur"
  using assms
proof (induction log_prob cur new lp ap i s rule: ensemble_loop.induct)
  case (1 log_prob cur new lp ap i s)
  show ?case
  proof (cases "i < length (ens s cur)")
    case False
    then show ?thesis using "1.prems" by (subst (asm) ensemble_loop.simps) simp
  next
    case True
    then obtain s1 where w: "walker_step log_prob cur new lp ap i s = Some s1"
      and l: "ensemble_loop log_prob cur new lp ap (i + 1) s1 = Some s'"
      using "1.prems"(1) by (subst (asm) ensemble_loop.simps) (auto split: option.splits)
    obtain s0 where p: "propose cur new i s = Some s0"
      and s1: "s1 = accept_reject log_prob cur new lp ap i (log_prob (ens s cur ! i)) s0"
      using w by (auto simp: walker_step_def Let_def split: option.splits)
    have "ens s1 cur = ens s cur"
      using propose_frame [OF p] accept_reject_frame [of new log_prob cur lp ap i _ s0] "1.prems"(2)
      unfolding s1 by simp
    then show ?thesis using "1.IH" [OF True w l "1.prems"(2)] by simp
  qed
qed

lemma acceptance_range:
  assumes "\<not> isnan (dsub lpn logp0)"
  shows "acceptance lpn logp0 = dmin (Fin 1) (dexp (dsub lpn logp0)) \<and>
         dle (Fin 0) (acceptance lpn logp0) \<and> dle (acceptance lpn logp0) (Fin 1)"
  using assms by (cases "dsub lpn logp0") (auto simp: acceptance_def dmin_def dgt_def)

lemma acceptance_equal:
  assumes "\<not> isnan (dsub l l)"
  shows "acceptance l l = Fin 1"
  using assms by (cases l) (auto simp: acceptance_def dgt_def dsub_def)

lemma unit_draw_not_above_one: "unit_draw u \<Longrightarrow> \<not> dgt u (Fin 1)"
  by (cases u) (auto simp: dgt_def)

subsection \<open>The concrete ensemble\<close>

lemma choose_round_demo:
  "choose_round 0 3 0 [] demo_rng = ([2, 3], demo_rng)"
  by (simp add: choose_round.simps bernoulli_rng_def demo_rng_def)

lemma choose_walkers_demo:
  "choose_walkers 0 3 demo_rng = Some ([2, 3], demo_rng)"
  by (simp add: choose_walkers_def choose_loop.simps choose_round_demo)

lemma propose_demo: "propose 0 1 0 demo_state = Some demo_proposed"
  by (simp add: propose_def demo_state_def demo_proposed_def scenario_def choose_walkers_demo [unfolded demo_rng_def]
      mean_walkers_def set_ens_def normal_rng_def vadd_def vsub_def vscale_def dsub_def
      demo_rng_def demo_rng'_def fun_eq_iff)

lemma demo_sel:
  "ens demo_state 0 ! 0 = [Fin 0]"
  "ens demo_proposed 1 ! 0 = [Fin (- 1 / 2)]"
  "vecs demo_state 0 = [Fin 7, Fin 7, Fin 7]"
  "vecs demo_state 1 = [Fin 7, Fin 7, Fin 7]"
  "ens demo_state 1 = [[Fin 9], [Fin 9], [Fin 9]]"
  "shd (uniform_draws (rnd demo_state)) = Fin (1 / 2)"
  "shd (uniform_draws (rnd demo_proposed)) = Fin (1 / 2)"
  "ens demo_proposed (Suc 0) ! 0 = [Fin (- 1 / 2)]"
  "vecs demo_state (Suc 0) = [Fin 7, Fin 7, Fin 7]"
  "ens demo_state (Suc 0) = [[Fin 9], [Fin 9], [Fin 9]]"
  by (simp_all add: demo_state_def demo_proposed_def scenario_def demo_rng_def demo_rng'_def)

lemma step0_scenario:
  "walker_step flat_logp 0 1 0 1 0 (scenario fixed_rng [n0, n1, n2] [l0, l1, l2] [a0, a1, a2])
   = Some (scenario fixed_rng [[Fin 0], n1, n2] [Fin 0, l1, l2] [Fin 1, a1, a2])"
  by (simp add: walker_step_def propose_def accept_reject_def scenario_def
      choose_walkers_fixed [unfolded fixed_rng_def] flat_logp_def rand_uniform_def
      mean_walkers_def set_ens_def set_vec_def normal_rng_def vadd_def vsub_def vscale_def
      dsub_def dgt_def fixed_rng_def fun_eq_iff Let_def)

lemma step1_scenario:
  "walker_step flat_logp 0 1 0 1 1 (scenario fixed_rng [n0, n1, n2] [l0, l1, l2] [a0, a1, a2])
   = Some (scenario fixed_rng [n0, [Fin 1], n2] [l0, Fin 0, l2] [a0, Fin 1, a2])"
  by (simp add: walker_step_def propose_def accept_reject_def scenario_def
      choose_walkers_fixed [unfolded fixed_rng_def] flat_logp_def rand_uniform_def
      mean_walkers_def set_ens_def set_vec_def normal_rng_def vadd_def vsub_def vscale_def
      dsub_def dgt_def fixed_rng_def fun_eq_iff Let_def)

lemma step2_scenario:
  "walker_step flat_logp 0 1 0 1 2 (scenario fixed_rng [n0, n1, n2] [l0, l1, l2] [a0, a1, a2])
   = Some (scenario fixed_rng [n0, n1, [Fin 2]] [l0, l1, Fin 0] [a0, a1, Fin 1])"
  by (simp add: walker_step_def propose_def accept_reject_def scenario_def
      choose_walkers_fixed [unfolded fixed_rng_def] flat_logp_def rand_uniform_def
      mean_walkers_def set_ens_def set_vec_def normal_rng_def vadd_def vsub_def vscale_def
      dsub_def dgt_def fixed_rng_def fun_eq_iff Let_def)

lemma scenario_size: "length (ens (scenario g ns lps aps) 0) = 3"
  by (simp add: scenario_def)

text \<open>
  The scenario of the specification: three walkers at 0, 1, 2, a source that always
  selects both other walkers, draws normal 0 and uniform 0. After the sweep every
  walker's next position is its current position and every acceptance probability
  is 1.
\<close>

lemma sweep_scenario:
  "ensemble_transition flat_logp 0 1 0 1
     (scenario fixed_rng [[Fin 9], [Fin 9], [Fin 9]] [Fin 7, Fin 7, Fin 7] [Fin 7, Fin 7, Fin 7])
   = Some (scenario fixed_rng [[Fin 0], [Fin 1], [Fin 2]] [Fin 0, Fin 0, Fin 0] [Fin 1, Fin 1, Fin 1])"
proof -
  have "ensemble_loop flat_logp 0 1 0 1 3
     (scenario fixed_rng [[Fin 0], [Fin 1], [Fin 2]] [Fin 0, Fin 0, Fin 0] [Fin 1, Fin 1, Fin 1])
     = Some (scenario fixed_rng [[Fin 0], [Fin 1], [Fin 2]] [Fin 0, Fin 0, Fin 0] [Fin 1, Fin 1, Fin 1])"
    by (subst ensemble_loop.simps) (simp add: scenario_size)
  then have "ensemble_loop flat_logp 0 1 0 1 2
     (scenario fixed_rng [[Fin 0], [Fin 1], [Fin 9]] [Fin 0, Fin 0, Fin 7] [Fin 1, Fin 1, Fin 7])
     = Some (scenario fixed_rng [[Fin 0], [Fin 1], [Fin 2]] [Fin 0, Fin 0, Fin 0] [Fin 1, Fin 1, Fin 1])"
    by (subst ensemble_loop.simps) (simp add: scenario_size step2_scenario del: One_nat_def)
  then have "ensemble_loop flat_logp 0 1 0 1 1
     (scenario fixed_rng [[Fin 0], [Fin 9], [Fin 9]] [Fin 0, Fin 7, Fin 7] [Fin 1, Fin 7, Fin 7])
     = Some (scenario fixed_rng [[Fin 0], [Fin 1], [Fin 2]] [Fin 0, Fin 0, Fin 0] [Fin 1, Fin 1, Fin 1])"
    by (subst ensemble_loop.simps) (simp add: scenario_size step1_scenario del: One_nat_def)
  then show ?thesis
    unfolding ensemble_transition_def
    by (subst ensemble_loop.simps) (simp add: scenario_size step0_scenario del: One_nat_def)
qed

subsection \<open>A not-a-number log-density\<close>

text \<open>
  C2. If the log-density of walker \<open>i\<close>'s proposed position is not-a-number and
  \<open>logp0\<close> is finite, then after the step \<open>logp(i)\<close> is positive infinity,
  \<open>accept_prob(i)\<close> is 1 and \<open>new_states[i]\<close> is the proposed position, for every
  uniform draw in \<open>[0, 1)\<close>.
\<close>

theorem nan_logp_always_accepted:
  assumes "propose cur new i s = Some s1"
    and "isnan (log_prob (ens s1 new ! i))"
    and "log_prob (ens s cur ! i) = Fin l0"
    and "unit_draw (shd (uniform_draws (rnd s1)))"
    and "lp \<noteq> ap" and "i < length (vecs s lp)" and "i < length (vecs s ap)"
  shows "\<exists>s'. walker_step log_prob cur new lp ap i s = Some s' \<and>
           vecs s' lp ! i = PInf \<and> vecs s' ap ! i = Fin 1 \<and>
           ens s' new ! i = ens s1 new ! i"
proof -
  let ?s' = "accept_reject log_prob cur new lp ap i (Fin l0) s1"
  have v: "vecs s1 = vecs s" using propose_frame [OF assms(1)] by simp
  have n: "logp_new log_prob (ens s1 new ! i) = PInf"
    using assms(2) by (simp add: logp_new_def)
  have a: "acceptance PInf (Fin l0) = Fin 1"
    by (simp add: acceptance_def dsub_def dgt_def)
  have u: "\<not> dgt (shd (uniform_draws (rnd s1))) (Fin 1)"
    using assms(4) by (rule unit_draw_not_above_one)
  have "vecs ?s' lp ! i = PInf \<and> vecs ?s' ap ! i = Fin 1 \<and> ens ?s' new ! i = ens s1 new ! i"
    using accept_reject_slot [of lp ap i s1 log_prob cur new "Fin l0"] assms(5-7) v n a u
    by simp
  then show ?thesis using walker_step_split [OF assms(1), of log_prob lp ap] assms(3) by simp
qed

text \<open>
  The theorem at walker 0 of the concrete ensemble, whose proposal is \<open>-1/2\<close>, with a
  log-density that is not-a-number there and 0 elsewhere.
\<close>

theorem nan_logp_always_accepted_witness:
  "propose 0 1 0 demo_state = Some demo_proposed \<and>
   isnan (nan_logp (ens demo_proposed 1 ! 0)) \<and>
   nan_logp (ens demo_state 0 ! 0) = Fin 0 \<and>
   unit_draw (shd (uniform_draws (rnd demo_proposed))) \<and>
   (0 :: nat) \<noteq> 1 \<and> 0 < length (vecs demo_state 0) \<and> 0 < length (vecs demo_state 1) \<and>
   (\<exists>s'. walker_step nan_logp 0 1 0 1 0 demo_state = Some s' \<and>
         vecs s' 0 ! 0 = PInf \<and> vecs s' 1 ! 0 = Fin 1 \<and> ens s' 1 ! 0 = [Fin (- 1 / 2)])"
proof -
  have h: "isnan (nan_logp (ens demo_proposed 1 ! 0))"
    "nan_logp (ens demo_state 0 ! 0) = Fin 0"
    "unit_draw (shd (uniform_draws (rnd demo_proposed)))"
    "(0 :: nat) \<noteq> 1" "0 < length (vecs demo_state 0)" "0 < length (vecs demo_state 1)"
    by (simp_all add: demo_sel nan_logp_def)
  show ?thesis
    using nan_logp_always_accepted [OF propose_demo h] propose_demo h
    by (simp add: demo_sel)
qed

subsection \<open>The acceptance probability\<close>

text \<open>
  C7. The value written to \<open>accept_prob(i)\<close> is not always in \<open>[0, 1]\<close>, and it
  is not always 1 when \<open>logp_new\<close> equals \<open>logp0\<close>. The code replaces a
  not-a-number log-density of the proposal only; it computes
  \<open>exp(logp(i) - logp0)\<close> and clamps it with \<open>accept_prob(i) > 1 ? 1 : accept_prob(i)\<close>,
  which lets not-a-number through. At walker 0 of the concrete ensemble, with a
  log-density that is minus infinity everywhere (a density of zero), \<open>logp_new\<close>
  equals \<open>logp0\<close>, the difference is not-a-number and so is the value written to
  \<open>accept_prob(0)\<close>. The same happens with a log-density that is not-a-number at the
  walker's current position, which is where a walker stands in the sweep after a
  not-a-number proposal was accepted.
\<close>

theorem accept_prob_not_a_number:
  "walker_step ninf_logp 0 1 0 1 0 demo_state
     = Some (accept_reject ninf_logp 0 1 0 1 0 NInf demo_proposed) \<and>
   logp_new ninf_logp (ens demo_proposed 1 ! 0) = ninf_logp (ens demo_state 0 ! 0) \<and>
   vecs (accept_reject ninf_logp 0 1 0 1 0 NInf demo_proposed) 1 ! 0 = NaN \<and>
   walker_step nan_cur_logp 0 1 0 1 0 demo_state
     = Some (accept_reject nan_cur_logp 0 1 0 1 0 NaN demo_proposed) \<and>
   vecs (accept_reject nan_cur_logp 0 1 0 1 0 NaN demo_proposed) 1 ! 0 = NaN \<and>
   \<not> dle (Fin 0) NaN \<and> \<not> dle NaN (Fin 1) \<and> NaN \<noteq> Fin 1"
  using walker_step_split [OF propose_demo, of ninf_logp 0 1]
    walker_step_split [OF propose_demo, of nan_cur_logp 0 1]
    accept_reject_slot [of 0 1 0 demo_proposed ninf_logp 0 1 NInf]
    accept_reject_slot [of 0 1 0 demo_proposed nan_cur_logp 0 1 NaN]
  by (simp add: ninf_logp_def nan_cur_logp_def logp_new_def acceptance_def dsub_def dgt_def
      demo_proposed_def demo_state_def scenario_def)

text \<open>
  Where the difference \<open>logp_new - logp0\<close> is a number, the code does what the
  claim says: the value written to \<open>accept_prob(i)\<close> is
  \<open>min(1, exp(logp_new - logp0))\<close> and lies in \<open>[0, 1]\<close>, and when \<open>logp_new\<close>
  equals \<open>logp0\<close> it is 1 and the proposal is accepted for every uniform draw in
  \<open>[0, 1)\<close>.
\<close>

lemma acceptance_probability:
  assumes "propose cur new i s = Some s1"
    and "lp \<noteq> ap" and "i < length (vecs s lp)" and "i < length (vecs s ap)"
    and "\<not> isnan (dsub (logp_new log_prob (ens s1 new ! i)) (log_prob (ens s cur ! i)))"
  shows "\<exists>s'. walker_step log_prob cur new lp ap i s = Some s' \<and>
           vecs s' ap ! i
             = dmin (Fin 1) (dexp (dsub (logp_new log_prob (ens s1 new ! i))
                                         (log_prob (ens s cur ! i)))) \<and>
           dle (Fin 0) (vecs s' ap ! i) \<and> dle (vecs s' ap ! i) (Fin 1) \<and>
           (logp_new log_prob (ens s1 new ! i) = log_prob (ens s cur ! i) \<longrightarrow>
              vecs s' ap ! i = Fin 1 \<and>
              (unit_draw (shd (uniform_draws (rnd s1))) \<longrightarrow>
                 ens s' new ! i = ens s1 new ! i \<and>
                 vecs s' lp ! i = logp_new log_prob (ens s1 new ! i)))"
proof -
  let ?l0 = "log_prob (ens s cur ! i)"
  let ?ln = "logp_new log_prob (ens s1 new ! i)"
  let ?s' = "accept_reject log_prob cur new lp ap i ?l0 s1"
  have v: "vecs s1 = vecs s" using propose_frame [OF assms(1)] by simp
  have slot: "vecs ?s' ap ! i = acceptance ?ln ?l0"
    "vecs ?s' lp ! i = (if dgt (shd (uniform_draws (rnd s1))) (acceptance ?ln ?l0)
                         then ?l0 else ?ln)"
    "ens ?s' new = (if dgt (shd (uniform_draws (rnd s1))) (acceptance ?ln ?l0)
                         then (ens s1 new)[i := ens s1 cur ! i] else ens s1 new)"
    using accept_reject_slot [of lp ap i s1 log_prob cur new ?l0] assms(2-4) v by simp_all
  have r: "vecs ?s' ap ! i = dmin (Fin 1) (dexp (dsub ?ln ?l0)) \<and>
           dle (Fin 0) (vecs ?s' ap ! i) \<and> dle (vecs ?s' ap ! i) (Fin 1)"
    unfolding slot(1) by (rule acceptance_range [OF assms(5)])
  have e: "?ln = ?l0 \<longrightarrow> vecs ?s' ap ! i = Fin 1 \<and>
      (unit_draw (shd (uniform_draws (rnd s1))) \<longrightarrow>
         ens ?s' new ! i = ens s1 new ! i \<and> vecs ?s' lp ! i = ?ln)"
  proof (intro impI conjI)
    assume eq: "?ln = ?l0"
    then have one: "acceptance ?ln ?l0 = Fin 1" using acceptance_equal [of ?l0] assms(5) by simp
    then show "vecs ?s' ap ! i = Fin 1" using slot(1) by simp
    assume "unit_draw (shd (uniform_draws (rnd s1)))"
    then have u: "\<not> dgt (shd (uniform_draws (rnd s1))) (Fin 1)"
      by (rule unit_draw_not_above_one)
    show "ens ?s' new ! i = ens s1 new ! i" using slot(3) one u by simp
    show "vecs ?s' lp ! i = ?ln" using slot(2) one u by simp
  qed
  from walker_step_split [OF assms(1), of log_prob lp ap] r e show ?thesis by blast
qed

text \<open>
  Walker 0 of the concrete ensemble with the log-density that is 0 everywhere.
\<close>

lemma acceptance_probability_example:
  "propose 0 1 0 demo_state = Some demo_proposed \<and>
   (0 :: nat) \<noteq> 1 \<and> 0 < length (vecs demo_state 0) \<and> 0 < length (vecs demo_state 1) \<and>
   \<not> isnan (dsub (logp_new flat_logp (ens demo_proposed 1 ! 0))
                  (flat_logp (ens demo_state 0 ! 0))) \<and>
   logp_new flat_logp (ens demo_proposed 1 ! 0) = flat_logp (ens demo_state 0 ! 0) \<and>
   unit_draw (shd (uniform_draws (rnd demo_proposed))) \<and>
   (\<exists>s'. walker_step flat_logp 0 1 0 1 0 demo_state = Some s' \<and>
         vecs s' 1 ! 0 = Fin 1 \<and> dle (Fin 0) (vecs s' 1 ! 0) \<and> dle (vecs s' 1 ! 0) (Fin 1) \<and>
         ens s' 1 ! 0 = [Fin (- 1 / 2)] \<and> vecs s' 0 ! 0 = Fin 0)"
proof -
  have h: "(0 :: nat) \<noteq> 1" "0 < length (vecs demo_state 0)" "0 < length (vecs demo_state 1)"
    "\<not> isnan (dsub (logp_new flat_logp (ens demo_proposed 1 ! 0))
                  (flat_logp (ens demo_state 0 ! 0)))"
    by (simp_all add: demo_sel flat_logp_def logp_new_def dsub_def)
  have e: "logp_new flat_logp (ens demo_proposed 1 ! 0) = flat_logp (ens demo_state 0 ! 0)"
    "unit_draw (shd (uniform_draws (rnd demo_proposed)))"
    by (simp_all add: demo_sel flat_logp_def logp_new_def)
  show ?thesis
    using acceptance_probability [OF propose_demo h] propose_demo h e
    by (auto simp: demo_sel flat_logp_def logp_new_def)
qed

subsection \<open>Acceptance and rejection\<close>

text \<open>
  C8. In the accept/reject step of walker \<open>i\<close> exactly one uniform draw is consumed
  (and none while the proposal is made). If the draw exceeds \<open>accept_prob(i)\<close> the
  move is rejected: \<open>new_states[i]\<close> is \<open>cur_states[i]\<close> and \<open>logp(i)\<close> is
  \<open>logp0\<close>. Otherwise \<open>new_states[i]\<close> is the proposed position and \<open>logp(i)\<close>
  its log-density. The buffers are distinct objects.
\<close>

theorem accept_reject_step:
  assumes "propose cur new i s = Some s1"
    and "cur \<noteq> new" and "lp \<noteq> ap"
    and "i < length (ens s new)" and "i < length (vecs s lp)" and "i < length (vecs s ap)"
  shows "\<exists>s'. walker_step log_prob cur new lp ap i s = Some s' \<and>
           uniform_draws (rnd s1) = uniform_draws (rnd s) \<and>
           rnd s' = (rnd s1)\<lparr>uniform_draws := stl (uniform_draws (rnd s))\<rparr> \<and>
           (if dgt (shd (uniform_draws (rnd s))) (vecs s' ap ! i)
            then ens s' new ! i = ens s cur ! i \<and>
                 vecs s' lp ! i = log_prob (ens s cur ! i)
            else ens s' new ! i = ens s1 new ! i \<and>
                 vecs s' lp ! i = logp_new log_prob (ens s1 new ! i))"
proof -
  let ?l0 = "log_prob (ens s cur ! i)"
  let ?ln = "logp_new log_prob (ens s1 new ! i)"
  let ?s' = "accept_reject log_prob cur new lp ap i ?l0 s1"
  have fr: "vecs s1 = vecs s" "ens s1 cur = ens s cur" "length (ens s1 new) = length (ens s new)"
    "uniform_draws (rnd s1) = uniform_draws (rnd s)"
    using propose_frame [OF assms(1)] assms(2) by simp_all
  have slot: "vecs ?s' ap ! i = acceptance ?ln ?l0"
    "vecs ?s' lp ! i = (if dgt (shd (uniform_draws (rnd s1))) (acceptance ?ln ?l0)
                         then ?l0 else ?ln)"
    "ens ?s' new = (if dgt (shd (uniform_draws (rnd s1))) (acceptance ?ln ?l0)
                         then (ens s1 new)[i := ens s1 cur ! i] else ens s1 new)"
    using accept_reject_slot [of lp ap i s1 log_prob cur new ?l0] assms(3,5,6) fr(1) by simp_all
  have g: "rnd ?s' = (rnd s1)\<lparr>uniform_draws := stl (uniform_draws (rnd s))\<rparr>"
    using accept_reject_frame [of new log_prob cur lp ap i ?l0 s1] fr(4) by simp
  have "if dgt (shd (uniform_draws (rnd s))) (vecs ?s' ap ! i)
        then ens ?s' new ! i = ens s cur ! i \<and> vecs ?s' lp ! i = ?l0
        else ens ?s' new ! i = ens s1 new ! i \<and> vecs ?s' lp ! i = ?ln"
    using slot fr assms(4) by simp
  then show ?thesis using walker_step_split [OF assms(1), of log_prob lp ap] g fr(4) by simp
qed

text \<open>
  The theorem at walker 0 of the concrete ensemble, twice: with a log-density of minus
  infinity at the proposal (acceptance probability 0, the draw 1/2 rejects) and with
  the log-density 0 everywhere (acceptance probability 1, the proposal stands).
\<close>

theorem accept_reject_step_witness:
  "propose 0 1 0 demo_state = Some demo_proposed \<and>
   (0 :: nat) \<noteq> 1 \<and> 0 < length (ens demo_state 1) \<and>
   0 < length (vecs demo_state 0) \<and> 0 < length (vecs demo_state 1) \<and>
   walker_step low_logp 0 1 0 1 0 demo_state
     = Some (accept_reject low_logp 0 1 0 1 0 (Fin 0) demo_proposed) \<and>
   dgt (shd (uniform_draws (rnd demo_state)))
       (vecs (accept_reject low_logp 0 1 0 1 0 (Fin 0) demo_proposed) 1 ! 0) \<and>
   ens (accept_reject low_logp 0 1 0 1 0 (Fin 0) demo_proposed) 1 ! 0 = [Fin 0] \<and>
   vecs (accept_reject low_logp 0 1 0 1 0 (Fin 0) demo_proposed) 0 ! 0 = Fin 0 \<and>
   uniform_draws (rnd (accept_reject low_logp 0 1 0 1 0 (Fin 0) demo_proposed))
     = stl (uniform_draws (rnd demo_state)) \<and>
   walker_step flat_logp 0 1 0 1 0 demo_state
     = Some (accept_reject flat_logp 0 1 0 1 0 (Fin 0) demo_proposed) \<and>
   \<not> dgt (shd (uniform_draws (rnd demo_state)))
       (vecs (accept_reject flat_logp 0 1 0 1 0 (Fin 0) demo_proposed) 1 ! 0) \<and>
   ens (accept_reject flat_logp 0 1 0 1 0 (Fin 0) demo_proposed) 1 ! 0 = [Fin (- 1 / 2)] \<and>
   vecs (accept_reject flat_logp 0 1 0 1 0 (Fin 0) demo_proposed) 0 ! 0 = Fin 0"
proof -
  have h: "(0 :: nat) \<noteq> 1" "(0 :: nat) \<noteq> 1" "0 < length (ens demo_state 1)"
    "0 < length (vecs demo_state 0)" "0 < length (vecs demo_state 1)"
    by (simp_all add: demo_sel)
  have low: "walker_step low_logp 0 1 0 1 0 demo_state
     = Some (accept_reject low_logp 0 1 0 1 0 (Fin 0) demo_proposed)"
    using walker_step_split [OF propose_demo, of low_logp 0 1]
    by (simp add: low_logp_def demo_sel)
  have flat: "walker_step flat_logp 0 1 0 1 0 demo_state
     = Some (accept_reject flat_logp 0 1 0 1 0 (Fin 0) demo_proposed)"
    using walker_step_split [OF propose_demo, of flat_logp 0 1]
    by (simp add: flat_logp_def)
  have a: "vecs (accept_reject low_logp 0 1 0 1 0 (Fin 0) demo_proposed) 1 ! 0 = Fin 0"
    "vecs (accept_reject flat_logp 0 1 0 1 0 (Fin 0) demo_proposed) 1 ! 0 = Fin 1"
    using accept_reject_slot [of 0 1 0 demo_proposed low_logp 0 1 "Fin 0"]
      accept_reject_slot [of 0 1 0 demo_proposed flat_logp 0 1 "Fin 0"]
    by (simp_all add: low_logp_def flat_logp_def logp_new_def acceptance_def dsub_def dgt_def
        demo_proposed_def scenario_def)
  show ?thesis
    using accept_reject_step [OF propose_demo h, of low_logp]
      accept_reject_step [OF propose_demo h, of flat_logp] propose_demo h low flat a
    by (simp add: demo_sel dgt_def low_logp_def flat_logp_def logp_new_def)
qed

subsection \<open>The frame of a walker's step\<close>

text \<open>
  C9. When \<^verbatim>\<open>cur_states\<close> and \<^verbatim>\<open>new_states\<close> are distinct objects, the step
  of walker \<open>i\<close> leaves \<^verbatim>\<open>cur_states\<close> as it is, writes no object other than
  \<^verbatim>\<open>new_states\<close>, \<^verbatim>\<open>logp\<close> and \<^verbatim>\<open>accept_prob\<close>, and leaves every
  slot \<open>j \<noteq> i\<close> of those three (and their sizes) unchanged. What it writes to slot
  \<open>i\<close> depends on \<^verbatim>\<open>cur_states\<close> and the random source only: run from any
  other state with the same \<^verbatim>\<open>cur_states\<close> and the same random source, the step
  writes the same values to slot \<open>i\<close>. A whole sweep leaves \<^verbatim>\<open>cur_states\<close>
  as it is.
\<close>

theorem walker_step_frame:
  assumes "walker_step log_prob cur new lp ap i s = Some s'" and "cur \<noteq> new"
  shows "ens s' cur = ens s cur \<and>
    (\<forall>b. b \<noteq> new \<longrightarrow> ens s' b = ens s b) \<and>
    (\<forall>b. b \<noteq> lp \<and> b \<noteq> ap \<longrightarrow> vecs s' b = vecs s b) \<and>
    (\<forall>j. j \<noteq> i \<longrightarrow> ens s' new ! j = ens s new ! j \<and>
                  vecs s' lp ! j = vecs s lp ! j \<and> vecs s' ap ! j = vecs s ap ! j) \<and>
    length (ens s' new) = length (ens s new) \<and>
    length (vecs s' lp) = length (vecs s lp) \<and>
    length (vecs s' ap) = length (vecs s ap) \<and>
    (\<forall>t :: sampler_state. ens t cur = ens s cur \<and> rnd t = rnd s \<and> lp \<noteq> ap \<and>
         i < length (ens s new) \<and> i < length (ens t new) \<and>
         i < length (vecs s lp) \<and> i < length (vecs t lp) \<and>
         i < length (vecs s ap) \<and> i < length (vecs t ap) \<longrightarrow>
         (\<exists>t'. walker_step log_prob cur new lp ap i t = Some t' \<and>
               ens t' new ! i = ens s' new ! i \<and> vecs t' lp ! i = vecs s' lp ! i \<and>
               vecs t' ap ! i = vecs s' ap ! i \<and> rnd t' = rnd s')) \<and>
    (\<forall>s0 s2. ensemble_transition log_prob cur new lp ap s0 = Some s2 \<longrightarrow>
         ens s2 cur = ens s0 cur)"
proof -
  let ?l0 = "log_prob (ens s cur ! i)"
  obtain s1 where p: "propose cur new i s = Some s1"
    and s': "s' = accept_reject log_prob cur new lp ap i ?l0 s1"
    using assms(1) by (auto simp: walker_step_def Let_def split: option.splits)
  note pf = propose_frame [OF p]
  note af = accept_reject_frame [of new log_prob cur lp ap i ?l0 s1]
  have frame: "ens s' cur = ens s cur \<and>
    (\<forall>b. b \<noteq> new \<longrightarrow> ens s' b = ens s b) \<and>
    (\<forall>b. b \<noteq> lp \<and> b \<noteq> ap \<longrightarrow> vecs s' b = vecs s b) \<and>
    (\<forall>j. j \<noteq> i \<longrightarrow> ens s' new ! j = ens s new ! j \<and>
                  vecs s' lp ! j = vecs s lp ! j \<and> vecs s' ap ! j = vecs s ap ! j) \<and>
    length (ens s' new) = length (ens s new) \<and>
    length (vecs s' lp) = length (vecs s lp) \<and>
    length (vecs s' ap) = length (vecs s ap)"
    using pf af assms(2) unfolding s' by simp
  have reads: "\<forall>t :: sampler_state. ens t cur = ens s cur \<and> rnd t = rnd s \<and> lp \<noteq> ap \<and>
         i < length (ens s new) \<and> i < length (ens t new) \<and>
         i < length (vecs s lp) \<and> i < length (vecs t lp) \<and>
         i < length (vecs s ap) \<and> i < length (vecs t ap) \<longrightarrow>
         (\<exists>t'. walker_step log_prob cur new lp ap i t = Some t' \<and>
               ens t' new ! i = ens s' new ! i \<and> vecs t' lp ! i = vecs s' lp ! i \<and>
               vecs t' ap ! i = vecs s' ap ! i \<and> rnd t' = rnd s')"
  proof (intro allI impI)
    fix t :: sampler_state
    assume h: "ens t cur = ens s cur \<and> rnd t = rnd s \<and> lp \<noteq> ap \<and>
         i < length (ens s new) \<and> i < length (ens t new) \<and>
         i < length (vecs s lp) \<and> i < length (vecs t lp) \<and>
         i < length (vecs s ap) \<and> i < length (vecs t ap)"
    from propose_reads [OF p assms(2), of t] h
    obtain t1 where q: "propose cur new i t = Some t1"
      and e: "ens t1 new ! i = ens s1 new ! i" "rnd t1 = rnd s1"
      by blast
    note qf = propose_frame [OF q]
    let ?t' = "accept_reject log_prob cur new lp ap i ?l0 t1"
    have c: "ens t1 cur = ens s1 cur" using pf qf h assms(2) by simp
    have ss: "vecs s' ap ! i = acceptance (logp_new log_prob (ens s1 new ! i)) ?l0"
      "vecs s' lp ! i = (if dgt (shd (uniform_draws (rnd s1)))
                              (acceptance (logp_new log_prob (ens s1 new ! i)) ?l0)
                         then ?l0 else logp_new log_prob (ens s1 new ! i))"
      "ens s' new = (if dgt (shd (uniform_draws (rnd s1)))
                              (acceptance (logp_new log_prob (ens s1 new ! i)) ?l0)
                         then (ens s1 new)[i := ens s1 cur ! i] else ens s1 new)"
      using accept_reject_slot [of lp ap i s1 log_prob cur new ?l0] h pf unfolding s'
      by simp_all
    have ts: "vecs ?t' ap ! i = acceptance (logp_new log_prob (ens s1 new ! i)) ?l0"
      "vecs ?t' lp ! i = (if dgt (shd (uniform_draws (rnd s1)))
                              (acceptance (logp_new log_prob (ens s1 new ! i)) ?l0)
                         then ?l0 else logp_new log_prob (ens s1 new ! i))"
      "ens ?t' new = (if dgt (shd (uniform_draws (rnd s1)))
                              (acceptance (logp_new log_prob (ens s1 new ! i)) ?l0)
                         then (ens t1 new)[i := ens s1 cur ! i] else ens t1 new)"
      using accept_reject_slot [of lp ap i t1 log_prob cur new ?l0] h qf e c
      by simp_all
    have n: "ens ?t' new ! i = ens s' new ! i"
      unfolding ss(3) ts(3) using e(1) h pf qf by simp
    have g: "rnd ?t' = rnd s'"
      using af accept_reject_frame [of new log_prob cur lp ap i ?l0 t1] e(2)
      unfolding s' by simp
    have "walker_step log_prob cur new lp ap i t = Some ?t'"
      using walker_step_split [OF q, of log_prob lp ap] h by simp
    then show "\<exists>t'. walker_step log_prob cur new lp ap i t = Some t' \<and>
               ens t' new ! i = ens s' new ! i \<and> vecs t' lp ! i = vecs s' lp ! i \<and>
               vecs t' ap ! i = vecs s' ap ! i \<and> rnd t' = rnd s'"
      using n g ss(1,2) ts(1,2) by simp
  qed
  have sweep: "\<forall>s0 s2. ensemble_transition log_prob cur new lp ap s0 = Some s2 \<longrightarrow>
         ens s2 cur = ens s0 cur"
    using ensemble_loop_frame [OF _ assms(2)] by (simp add: ensemble_transition_def)
  from frame reads sweep show ?thesis by blast
qed

text \<open>
  The theorem at walker 0 of the concrete ensemble, against a second state with other
  contents in the three output buffers, and at the sweep of the scenario above.
\<close>

theorem walker_step_frame_witness:
  "walker_step flat_logp 0 1 0 1 0 demo_state
     = Some (accept_reject flat_logp 0 1 0 1 0 (Fin 0) demo_proposed) \<and>
   (0 :: nat) \<noteq> 1 \<and>
   ens (accept_reject flat_logp 0 1 0 1 0 (Fin 0) demo_proposed) 0 = ens demo_state 0 \<and>
   ens (accept_reject flat_logp 0 1 0 1 0 (Fin 0) demo_proposed) 1 ! 1 = ens demo_state 1 ! 1 \<and>
   vecs (accept_reject flat_logp 0 1 0 1 0 (Fin 0) demo_proposed) 0 ! 2 = vecs demo_state 0 ! 2 \<and>
   vecs (accept_reject flat_logp 0 1 0 1 0 (Fin 0) demo_proposed) 1 ! 2 = vecs demo_state 1 ! 2 \<and>
   ens other_state 0 = ens demo_state 0 \<and> rnd other_state = rnd demo_state \<and>
   0 < length (ens demo_state 1) \<and> 0 < length (ens other_state 1) \<and>
   0 < length (vecs demo_state 0) \<and> 0 < length (vecs other_state 0) \<and>
   0 < length (vecs demo_state 1) \<and> 0 < length (vecs other_state 1) \<and>
   (\<exists>t'. walker_step flat_logp 0 1 0 1 0 other_state = Some t' \<and>
      ens t' 1 ! 0 = ens (accept_reject flat_logp 0 1 0 1 0 (Fin 0) demo_proposed) 1 ! 0 \<and>
      vecs t' 0 ! 0 = vecs (accept_reject flat_logp 0 1 0 1 0 (Fin 0) demo_proposed) 0 ! 0 \<and>
      vecs t' 1 ! 0 = vecs (accept_reject flat_logp 0 1 0 1 0 (Fin 0) demo_proposed) 1 ! 0 \<and>
      rnd t' = rnd (accept_reject flat_logp 0 1 0 1 0 (Fin 0) demo_proposed)) \<and>
   ensemble_transition flat_logp 0 1 0 1
     (scenario fixed_rng [[Fin 9], [Fin 9], [Fin 9]] [Fin 7, Fin 7, Fin 7] [Fin 7, Fin 7, Fin 7])
   = Some (scenario fixed_rng [[Fin 0], [Fin 1], [Fin 2]] [Fin 0, Fin 0, Fin 0] [Fin 1, Fin 1, Fin 1]) \<and>
   ens (scenario fixed_rng [[Fin 0], [Fin 1], [Fin 2]] [Fin 0, Fin 0, Fin 0] [Fin 1, Fin 1, Fin 1]) 0
   = ens (scenario fixed_rng [[Fin 9], [Fin 9], [Fin 9]] [Fin 7, Fin 7, Fin 7] [Fin 7, Fin 7, Fin 7]) 0"
proof -
  have flat: "walker_step flat_logp 0 1 0 1 0 demo_state
     = Some (accept_reject flat_logp 0 1 0 1 0 (Fin 0) demo_proposed)"
    using walker_step_split [OF propose_demo, of flat_logp 0 1]
    by (simp add: flat_logp_def)
  have ne: "(0 :: nat) \<noteq> 1" by simp
  have t: "ens other_state 0 = ens demo_state 0 \<and> rnd other_state = rnd demo_state \<and>
     (0 :: nat) \<noteq> 1 \<and>
     0 < length (ens demo_state 1) \<and> 0 < length (ens other_state 1) \<and>
     0 < length (vecs demo_state 0) \<and> 0 < length (vecs other_state 0) \<and>
     0 < length (vecs demo_state 1) \<and> 0 < length (vecs other_state 1)"
    by (simp add: other_state_def demo_state_def scenario_def)
  note fr = walker_step_frame [OF flat ne]
  from fr have reads: "\<exists>t'. walker_step flat_logp 0 1 0 1 0 other_state = Some t' \<and>
      ens t' 1 ! 0 = ens (accept_reject flat_logp 0 1 0 1 0 (Fin 0) demo_proposed) 1 ! 0 \<and>
      vecs t' 0 ! 0 = vecs (accept_reject flat_logp 0 1 0 1 0 (Fin 0) demo_proposed) 0 ! 0 \<and>
      vecs t' 1 ! 0 = vecs (accept_reject flat_logp 0 1 0 1 0 (Fin 0) demo_proposed) 1 ! 0 \<and>
      rnd t' = rnd (accept_reject flat_logp 0 1 0 1 0 (Fin 0) demo_proposed)"
    using t by blast
  from fr have slots:
    "ens (accept_reject flat_logp 0 1 0 1 0 (Fin 0) demo_proposed) 0 = ens demo_state 0"
    "ens (accept_reject flat_logp 0 1 0 1 0 (Fin 0) demo_proposed) 1 ! 1 = ens demo_state 1 ! 1"
    "vecs (accept_reject flat_logp 0 1 0 1 0 (Fin 0) demo_proposed) 0 ! 2 = vecs demo_state 0 ! 2"
    "vecs (accept_reject flat_logp 0 1 0 1 0 (Fin 0) demo_proposed) 1 ! 2 = vecs demo_state 1 ! 2"
    by simp_all
  from fr sweep_scenario have sw:
    "ens (scenario fixed_rng [[Fin 0], [Fin 1], [Fin 2]] [Fin 0, Fin 0, Fin 0] [Fin 1, Fin 1, Fin 1]) 0
   = ens (scenario fixed_rng [[Fin 9], [Fin 9], [Fin 9]] [Fin 7, Fin 7, Fin 7] [Fin 7, Fin 7, Fin 7]) 0"
    by blast
  from flat ne slots t reads sweep_scenario sw show ?thesis by blast
qed

end
